theory Spec2Isabelle
  imports Complex_Main "HOL-Library.AList" "HOL-Library.Sublist"
begin

section \<open>PathMatcher: the allowlist and \<open>pathIsAllowed\<close>\<close>

text \<open>
  \<^verbatim>\<open>ALLOWED_PATHS\<close> is a JavaScript \<^verbatim>\<open>Set\<close> of 43 distinct strings. Iteration over a
  \<^verbatim>\<open>Set\<close> follows insertion order, so the set is kept as the list of its entries in
  source order; \<^verbatim>\<open>has\<close> is list membership.
\<close>

definition ALLOWED_PATHS :: "string list" where
  "ALLOWED_PATHS =
    [''/v2/shopping/flight-offers'',
     ''/v1/shopping/flight-dates'',
     ''/v1/shopping/flight-offers/pricing'',
     ''/v1/booking/flight-orders'',
     ''/v1/booking/flight-orders/:flightOrderId'',
     ''/v1/shopping/seatmaps'',
     ''/v2/schedule/flights'',
     ''/v1/travel/predictions/flight-delay'',
     ''/v1/analytics/itinerary-price-metrics'',
     ''/v1/shopping/flight-offers/upselling'',
     ''/v2/shopping/flight-offers/prediction'',
     ''/v1/shopping/flight-destinations'',
     ''/v1/shopping/availability/flight-availabilities'',
     ''/v1/reference-data/recommended-locations'',
     ''/v1/airport/predictions/on-time'',
     ''/v1/reference-data/locations'',
     ''/v1/reference-data/locations/CMUC'',
     ''/v1/reference-data/locations/airports'',
     ''/v1/airport/direct-destinations'',
     ''/v2/reference-data/urls/checkin-links'',
     ''/v1/reference-data/airlines'',
     ''/v1/airline/destinations'',
     ''/v1/shopping/activities'',
     ''/v1/shopping/activities/4615'',
     ''/v1/shopping/activities/by-square'',
     ''/v1/reference-data/locations/cities'',
     ''/v1/shopping/transfer-offers'',
     ''/v1/ordering/transfer-orders'',
     ''/v1/ordering/transfer-orders/:transferOrderId/transfers/cancellation'',
     ''/v1/travel/analytics/air-traffic/traveled'',
     ''/v1/travel/analytics/air-traffic/booked'',
     ''/v1/travel/analytics/air-traffic/busiest-period'',
     ''/v1/security/oauth2/token'',
     ''/v1/reference-data/locations/hotels/by-city'',
     ''/v3/shopping/hotel-offers'',
     ''/v1/booking/hotel-bookings'',
     ''/v1/reference-data/locations/hotels/by-hotels'',
     ''/v1/reference-data/locations/hotels/by-geocode'',
     ''/v3/shopping/hotel-offers/:hotelOfferId'',
     ''/v2/booking/hotel-orders'',
     ''/v2/e-reputation/hotel-sentiments'',
     ''/v1/reference-data/locations/hotel'',
     ''/v1/travel/predictions/trip-purpose'']"

text \<open>
  The three string methods that \<^verbatim>\<open>pathIsAllowed\<close> uses. \<^verbatim>\<open>split("/")\<close> never
  returns an empty array: the empty string splits into one empty segment.
\<close>

fun split_slash :: "string \<Rightarrow> string list" where
  "split_slash [] = [[]]"
| "split_slash (c # cs) =
     (if c = CHR ''/'' then [] # split_slash cs
      else (case split_slash cs of
              [] \<Rightarrow> [[c]]
            | seg # segs \<Rightarrow> (c # seg) # segs))"

fun join_slash :: "string list \<Rightarrow> string" where
  "join_slash [] = []"
| "join_slash [seg] = seg"
| "join_slash (seg # seg' # segs) = seg @ ''/'' @ join_slash (seg' # segs)"

definition startsWith :: "string \<Rightarrow> string \<Rightarrow> bool" where
  "startsWith s p = (take (length p) s = p)"

definition str_includes :: "string \<Rightarrow> char \<Rightarrow> bool" where
  "str_includes s c = (c \<in> set s)"

text \<open>
  The regular expressions that \<^verbatim>\<open>pathIsAllowed\<close> builds have the source text
  \<^verbatim>\<open>"^" + body + "$"\<close>, where \<^verbatim>\<open>body\<close> is the template with every segment that starts
  with a colon replaced by \<^verbatim>\<open>[^/]+\<close>. \<open>compile_rx\<close> reads such a body: the five characters
  \<^verbatim>\<open>[^/]+\<close> are one item (one or more characters other than a slash), every other
  character stands for itself. \<open>rx_match\<close> decides whether the whole candidate is matched,
  which is what \<^verbatim>\<open>test\<close> returns for a pattern anchored by \<^verbatim>\<open>^\<close> and \<^verbatim>\<open>$\<close>.
\<close>

datatype rx = Chr char | NotSlashPlus

function compile_rx :: "string \<Rightarrow> rx list" where
  "compile_rx [] = []"
| "compile_rx (c # cs) =
     (if c = CHR ''['' \<and> take 4 cs = ''^/]+'' then NotSlashPlus # compile_rx (drop 4 cs)
      else Chr c # compile_rx cs)"
  by pat_completeness auto
termination
  by (relation "measure length") auto

fun rx_match :: "rx list \<Rightarrow> string \<Rightarrow> bool" where
  "rx_match [] [] = True"
| "rx_match [] (x # xs) = False"
| "rx_match (Chr c # r) [] = False"
| "rx_match (Chr c # r) (x # xs) = (x = c \<and> rx_match r xs)"
| "rx_match (NotSlashPlus # r) [] = False"
| "rx_match (NotSlashPlus # r) (x # xs) =
     (x \<noteq> CHR ''/'' \<and> (rx_match r xs \<or> rx_match (NotSlashPlus # r) xs))"

definition regex_body :: "string \<Rightarrow> string" where
  "regex_body p =
     join_slash (map (\<lambda>seg. if startsWith seg '':'' then ''[^/]+'' else seg) (split_slash p))"

definition regex_test :: "string \<Rightarrow> string \<Rightarrow> bool" where
  "regex_test body requestPath = rx_match (compile_rx body) requestPath"

text \<open>The \<^verbatim>\<open>for\<close> loop of \<^verbatim>\<open>pathIsAllowed\<close> over the entries, and the function itself.\<close>

fun template_loop :: "string list \<Rightarrow> string \<Rightarrow> bool" where
  "template_loop [] requestPath = False"
| "template_loop (p # ps) requestPath =
     (if \<not> str_includes p CHR '':'' then template_loop ps requestPath
      else if regex_test (regex_body p) requestPath then True
      else template_loop ps requestPath)"

definition pathIsAllowed :: "string \<Rightarrow> bool" where
  "pathIsAllowed requestPath =
     (if requestPath \<in> set ALLOWED_PATHS then True
      else template_loop ALLOWED_PATHS requestPath)"

text \<open>
  The matching rule in the words of the specification, for comparison with the regular
  expressions of the code: a template matches a candidate when both split into the same
  number of segments, every literal segment of the template equals the candidate's
  segment, and every segment of the template that starts with a colon faces a non-empty
  segment free of slashes.
\<close>

definition seg_match :: "string \<Rightarrow> string \<Rightarrow> bool" where
  "seg_match t c = (if startsWith t '':'' then c \<noteq> [] \<and> CHR ''/'' \<notin> set c else c = t)"

definition template_matches :: "string \<Rightarrow> string \<Rightarrow> bool" where
  "template_matches p s = list_all2 seg_match (split_slash p) (split_slash s)"


text \<open>
  Two more notions of the specification: the path component of a candidate, that is the
  candidate without a suffix that starts at the first \<^verbatim>\<open>?\<close> or \<^verbatim>\<open>#\<close>, and the path obtained
  from a template by putting a segment in the place of its placeholder.
\<close>

definition strip_query_fragment :: "string \<Rightarrow> string" where
  "strip_query_fragment s = takeWhile (\<lambda>c. c \<noteq> CHR ''?'' \<and> c \<noteq> CHR ''#'') s"

definition substitute :: "string \<Rightarrow> string \<Rightarrow> string" where
  "substitute p seg =
     join_slash (map (\<lambda>t. if startsWith t '':'' then seg else t) (split_slash p))"

section \<open>Values, errors and the network\<close>

text \<open>
  The values that travel through the server are JSON values. A JavaScript string is
  modelled by a \<open>string\<close>; an object by the list of its own properties in enumeration
  order. Reading a property that is absent gives \<^verbatim>\<open>undefined\<close>, modelled by \<open>None\<close>.
\<close>

datatype json =
    JNull
  | JBool bool
  | JNum rat
  | JStr string
  | JArr "json list"
  | JObj "(string \<times> json) list"

text \<open>Truthiness, as tested by \<^verbatim>\<open>!x\<close>, \<^verbatim>\<open>x && y\<close> and \<^verbatim>\<open>x || y\<close>.\<close>

fun truthy :: "json \<Rightarrow> bool" where
  "truthy JNull = False"
| "truthy (JBool b) = b"
| "truthy (JNum n) = (n \<noteq> 0)"
| "truthy (JStr s) = (s \<noteq> [])"
| "truthy (JArr xs) = True"
| "truthy (JObj kvs) = True"

fun truthy_opt :: "json option \<Rightarrow> bool" where
  "truthy_opt None = False"
| "truthy_opt (Some v) = truthy v"

text \<open>\<^verbatim>\<open>v.name\<close> for a value that is neither \<^verbatim>\<open>null\<close> nor \<^verbatim>\<open>undefined\<close>.\<close>

fun get_prop :: "json \<Rightarrow> string \<Rightarrow> json option" where
  "get_prop (JObj kvs) name = map_of kvs name"
| "get_prop v name = None"

text \<open>Decimal digits of a natural number, as a template literal prints a status code.\<close>

fun dec :: "nat \<Rightarrow> string" where
  "dec n = (if n < 10 then [char_of (48 + n)] else dec (n div 10) @ [char_of (48 + n mod 10)])"

declare dec.simps [simp del]

text \<open>The own enumerable properties of a value, as \<^verbatim>\<open>Object.keys\<close> and object spread see them.\<close>

fun own_props :: "json \<Rightarrow> (string \<times> json) list" where
  "own_props (JObj kvs) = kvs"
| "own_props (JArr xs) = zip (map dec [0..<length xs]) xs"
| "own_props (JStr s) = zip (map dec [0..<length s]) (map (\<lambda>c. JStr [c]) s)"
| "own_props v = []"

text \<open>
  Case mapping and trimming. Characters stand for code units below 256; the case
  mappings act on the ASCII letters, which decides every comparison with the ASCII
  constants of the source in the same way as the full mappings do on these characters.
\<close>

definition lower_char :: "char \<Rightarrow> char" where
  "lower_char c =
     (let n = (of_char c :: nat) in if 65 \<le> n \<and> n \<le> 90 then char_of (n + 32) else c)"

definition upper_char :: "char \<Rightarrow> char" where
  "upper_char c =
     (let n = (of_char c :: nat) in if 97 \<le> n \<and> n \<le> 122 then char_of (n - 32) else c)"

definition toLowerCase :: "string \<Rightarrow> string" where
  "toLowerCase s = map lower_char s"

definition toUpperCase :: "string \<Rightarrow> string" where
  "toUpperCase s = map upper_char s"

definition is_whitespace :: "char \<Rightarrow> bool" where
  "is_whitespace c = ((of_char c :: nat) \<in> {9, 10, 11, 12, 13, 32, 160})"

definition trim :: "string \<Rightarrow> string" where
  "trim s = rev (dropWhile is_whitespace (rev (dropWhile is_whitespace s)))"

text \<open>
  An HTTP response as the code reads it, and a thrown value as the \<^verbatim>\<open>catch\<close> blocks read
  it: \<^verbatim>\<open>e?.message\<close> and \<^verbatim>\<open>e?.response\<close>. \<^verbatim>\<open>new Error(msg)\<close> has a message and no
  response. A handler can also fail with the error of the schema validation, which
  lists the fields that were refused.
\<close>

record response =
  rs_status :: nat
  rs_data :: json

datatype js_error = JsError (err_message: "string option") (err_response: "response option")

definition new_Error :: "string \<Rightarrow> js_error" where
  "new_Error msg = JsError (Some msg) None"

datatype exn = Thrown js_error | ZodError "string list"

text \<open>
  A request as it is handed to axios. \<open>rq_validateStatus = None\<close> is axios's default
  (resolve on a status from 200 to 299, reject otherwise).
\<close>

record request =
  rq_method :: string
  rq_url :: string
  rq_params :: "json option"
  rq_data :: "json option"
  rq_headers :: "(string \<times> json) list"
  rq_timeout :: int
  rq_maxRedirects :: "nat option"
  rq_validateStatus :: "(nat \<Rightarrow> bool) option"

text \<open>
  What the network does with a request: it completes with a response of some status, or
  it fails (DNS, connection refused, timeout, TLS) and axios rejects with an error.
\<close>

datatype reply = Completed response | Failed js_error

text \<open>
  Everything outside the repository is a parameter: the network, which answers the
  \<open>n\<close>-th request of a call, and the platform functions \<^verbatim>\<open>JSON.stringify\<close>, the
  conversion of a value that is not a string inside a template literal,
  \<^verbatim>\<open>URLSearchParams.toString\<close>, and \<^verbatim>\<open>String(e)\<close> for a thrown value \<open>e\<close> that has no
  message.
\<close>

record world =
  net :: "nat \<Rightarrow> request \<Rightarrow> reply"
  JSON_stringify :: "json \<Rightarrow> string"
  String_of :: "json \<Rightarrow> string"
  form_toString :: "(string \<times> string) list \<Rightarrow> string"
  String_of_thrown :: "js_error \<Rightarrow> string"

fun template_str :: "world \<Rightarrow> json \<Rightarrow> string" where
  "template_str w (JStr s) = s"
| "template_str w v = String_of w v"

text \<open>\<^verbatim>\<open>typeof v === "string" ? v : JSON.stringify(v)\<close>, used four times in the source.\<close>

fun text_of :: "world \<Rightarrow> json \<Rightarrow> string" where
  "text_of w (JStr s) = s"
| "text_of w v = JSON_stringify w v"

definition validate_default :: "nat \<Rightarrow> bool" where
  "validate_default s = (200 \<le> s \<and> s < 300)"

fun settle :: "(nat \<Rightarrow> bool) option \<Rightarrow> reply \<Rightarrow> js_error + response" where
  "settle vs (Failed e) = Inl e"
| "settle vs (Completed r) =
     (if (case vs of None \<Rightarrow> validate_default | Some f \<Rightarrow> f) (rs_status r) then Inr r
      else Inl (JsError (Some (''Request failed with status code '' @ dec (rs_status r))) (Some r)))"

text \<open>
  One call of axios: the request is appended to the log of requests issued so far, and
  the promise resolves (\<open>Inr\<close>) or rejects (\<open>Inl\<close>).
\<close>

definition axios_request ::
  "world \<Rightarrow> request list \<Rightarrow> request \<Rightarrow> (js_error + response) \<times> request list" where
  "axios_request w lg rq = (settle (rq_validateStatus rq) (net w (length lg) rq), lg @ [rq])"

section \<open>TokenProvider: \<open>getAmadeusToken\<close>\<close>

definition AMADEUS_TOKEN_PATH :: string where
  "AMADEUS_TOKEN_PATH = ''/v1/security/oauth2/token''"

definition token_request :: "world \<Rightarrow> string \<Rightarrow> string \<Rightarrow> string \<Rightarrow> int option \<Rightarrow> request" where
  "token_request w key secret service tmo =
     \<lparr>rq_method = ''POST'',
      rq_url = ''https://'' @ service @ ''.api.amadeus.com'' @ AMADEUS_TOKEN_PATH,
      rq_params = None,
      rq_data = Some (JStr (form_toString w
        [(''grant_type'', ''client_credentials''), (''client_id'', key), (''client_secret'', secret)])),
      rq_headers = [(''Content-Type'', JStr ''application/x-www-form-urlencoded'')],
      rq_timeout = (case tmo of None \<Rightarrow> 10000 | Some t \<Rightarrow> t),
      rq_maxRedirects = None,
      rq_validateStatus = None\<rparr>"

text \<open>
  The \<^verbatim>\<open>catch\<close> block: \<^verbatim>\<open>e?.response?.data ?? e?.message ?? "Failed to authenticate with
  Amadeus"\<close>, where \<^verbatim>\<open>??\<close> passes over \<^verbatim>\<open>null\<close> and \<^verbatim>\<open>undefined\<close> only.
\<close>

definition auth_detail :: "js_error \<Rightarrow> json" where
  "auth_detail e =
     (case (case err_response e of
              None \<Rightarrow> None
            | Some r \<Rightarrow> (if rs_data r = JNull then None else Some (rs_data r))) of
        Some d \<Rightarrow> d
      | None \<Rightarrow> (case err_message e of
                   Some m \<Rightarrow> JStr m
                 | None \<Rightarrow> JStr ''Failed to authenticate with Amadeus''))"

definition auth_error :: "world \<Rightarrow> js_error \<Rightarrow> js_error" where
  "auth_error w e = new_Error (''Amadeus auth error: '' @ text_of w (auth_detail e))"

definition getAmadeusToken ::
  "world \<Rightarrow> request list \<Rightarrow> string \<Rightarrow> string \<Rightarrow> string \<Rightarrow> int option \<Rightarrow>
   (js_error + json) \<times> request list" where
  "getAmadeusToken w lg key secret service tmo =
     (case axios_request w lg (token_request w key secret service tmo) of
        (Inl e, lg') \<Rightarrow> (Inl (auth_error w e), lg')
      | (Inr resp, lg') \<Rightarrow>
          (if \<not> truthy (rs_data resp) \<or> \<not> truthy_opt (get_prop (rs_data resp) ''access_token'')
           then (Inl (auth_error w (new_Error ''No access_token in Amadeus response'')), lg')
           else (case get_prop (rs_data resp) ''access_token'' of
                   Some token \<Rightarrow> (Inr token, lg')
                 | None \<Rightarrow> (Inl (auth_error w (new_Error ''No access_token in Amadeus response'')), lg'))))"

section \<open>RequestForwarder: \<open>forwardAmadeus\<close>\<close>

record base_args =
  serviceName :: string
  apiKey :: string
  apiSecret :: string
  query :: json
  body :: "json option"
  headers :: json
  contentType :: string
  timeoutMs :: int

record forward_args = base_args +
  http_method :: string
  path :: string

text \<open>
  The object literal handed to \<^verbatim>\<open>axios.request\<close>, the same in \<^verbatim>\<open>forwardAmadeus\<close> and in the
  handler of \<^verbatim>\<open>amadeus.request\<close>. In \<^verbatim>\<open>{ ...headers, Authorization: v, "Content-Type": c }\<close>
  a later property replaces the value of an equal earlier key and is appended otherwise.
\<close>

definition merge_headers :: "world \<Rightarrow> json \<Rightarrow> json \<Rightarrow> string \<Rightarrow> (string \<times> json) list" where
  "merge_headers w hdrs token ctype =
     AList.update ''Content-Type'' (JStr ctype)
       (AList.update ''Authorization'' (JStr (''Bearer '' @ template_str w token)) (own_props hdrs))"

definition upstream_request :: "world \<Rightarrow> ('a forward_args_scheme) \<Rightarrow> json \<Rightarrow> request" where
  "upstream_request w a token =
     \<lparr>rq_method = http_method a,
      rq_url = ''https://'' @ serviceName a @ ''.api.amadeus.com'' @ path a,
      rq_params = Some (query a),
      rq_data = body a,
      rq_headers = merge_headers w (headers a) token (contentType a),
      rq_timeout = timeoutMs a,
      rq_maxRedirects = Some 3,
      rq_validateStatus = Some (\<lambda>s. True)\<rparr>"

record forward_result =
  payload :: string
  fr_isError :: bool

definition forwardAmadeus ::
  "world \<Rightarrow> request list \<Rightarrow> forward_args \<Rightarrow> (js_error + forward_result) \<times> request list" where
  "forwardAmadeus w lg a =
     (case getAmadeusToken w lg (apiKey a) (apiSecret a) (serviceName a) (Some (timeoutMs a)) of
        (Inl e, lg') \<Rightarrow> (Inl e, lg')
      | (Inr token, lg') \<Rightarrow>
          (case axios_request w lg' (upstream_request w a token) of
             (Inl e, lg'') \<Rightarrow> (Inl e, lg'')
           | (Inr response, lg'') \<Rightarrow>
               (Inr \<lparr>payload = text_of w (rs_data response),
                     fr_isError = (400 \<le> rs_status response)\<rparr>, lg'')))"

section \<open>Input validation\<close>

subsection \<open>\<open>normalizeBase\<close> and its helpers\<close>

definition ensureString :: "json option \<Rightarrow> string \<Rightarrow> js_error + string" where
  "ensureString val name =
     (case val of
        Some (JStr s) \<Rightarrow>
          (if trim s = [] then Inl (new_Error (name @ '' must be a non-empty string'')) else Inr s)
      | _ \<Rightarrow> Inl (new_Error (name @ '' must be a non-empty string'')))"

text \<open>
  The loop \<^verbatim>\<open>for (const k of Object.keys(h)) lower[k.toLowerCase()] = h[k]\<close>, shared by
  \<^verbatim>\<open>assertNoAuthHeader\<close> and by the refinement of the \<^verbatim>\<open>headers\<close> field of the schemas.
\<close>

definition lower_keys :: "(string \<times> json) list \<Rightarrow> (string \<times> json) list" where
  "lower_keys props = foldl (\<lambda>lower (k, v). AList.update (toLowerCase k) v lower) [] props"

definition assertNoAuthHeader :: "json \<Rightarrow> js_error + unit" where
  "assertNoAuthHeader hdrs =
     (if \<not> truthy hdrs then Inr ()
      else if ''authorization'' \<in> fst ` set (lower_keys (own_props hdrs))
      then Inl (new_Error ''Do not send Authorization; it will be set by the server.'')
      else Inr ())"

definition is_object :: "json option \<Rightarrow> bool" where
  "is_object v = (case v of Some (JObj kvs) \<Rightarrow> True | Some (JArr xs) \<Rightarrow> True | _ \<Rightarrow> False)"

text \<open>\<^verbatim>\<open>Number.isInteger\<close> on a property that may be absent or of any type.\<close>

definition isInteger :: "json option \<Rightarrow> bool" where
  "isInteger v = (case v of Some (JNum r) \<Rightarrow> rat_of_int \<lfloor>r\<rfloor> = r | _ \<Rightarrow> False)"

definition int_value :: "json option \<Rightarrow> int" where
  "int_value v = (case v of Some (JNum r) \<Rightarrow> \<lfloor>r\<rfloor> | _ \<Rightarrow> 0)"

definition normalizeBase :: "(string \<times> json) list \<Rightarrow> js_error + base_args" where
  "normalizeBase input =
     (case ensureString (map_of input ''serviceName'') ''serviceName'' of
        Inl e \<Rightarrow> Inl e
      | Inr sn \<Rightarrow>
     (case ensureString (map_of input ''apiKey'') ''apiKey'' of
        Inl e \<Rightarrow> Inl e
      | Inr key \<Rightarrow>
     (case ensureString (map_of input ''apiSecret'') ''apiSecret'' of
        Inl e \<Rightarrow> Inl e
      | Inr secret \<Rightarrow>
     (let q = (if is_object (map_of input ''query'') then the (map_of input ''query'') else JObj []);
          b = map_of input ''body'';
          h = (if is_object (map_of input ''headers'') then the (map_of input ''headers'') else JObj [])
      in case assertNoAuthHeader h of
           Inl e \<Rightarrow> Inl e
         | Inr u \<Rightarrow>
     (let ct = (case map_of input ''contentType'' of Some (JStr s) \<Rightarrow> s | _ \<Rightarrow> ''application/json'');
          t = (if isInteger (map_of input ''timeoutMs'') then int_value (map_of input ''timeoutMs'')
               else 15000)
      in if \<not> (0 < t \<and> t \<le> 60000)
         then Inl (new_Error ''timeoutMs must be a positive integer up to 60000'')
         else Inr \<lparr>serviceName = sn, apiKey = key, apiSecret = secret, query = q, body = b,
                   headers = h, contentType = ct, timeoutMs = t\<rparr>)))))"

subsection \<open>\<open>RequestSchema\<close> of \<^verbatim>\<open>amadeus.request\<close>\<close>

text \<open>
  Each field of the schema as a function from the property of the input (absent:
  \<open>None\<close>) to the parsed value, or \<open>None\<close> when the field is refused.
  \<^verbatim>\<open>RequestSchema.parse\<close> throws when a field is refused and returns the parsed fields
  otherwise.
\<close>

definition z_string_min :: "nat \<Rightarrow> json option \<Rightarrow> string option" where
  "z_string_min n v = (case v of Some (JStr s) \<Rightarrow> (if n \<le> length s then Some s else None) | _ \<Rightarrow> None)"

definition z_method :: "json option \<Rightarrow> string option" where
  "z_method v =
     (case v of
        Some (JStr s) \<Rightarrow>
          (if toUpperCase s \<in> set [''GET'', ''POST'', ''PUT'', ''PATCH'', ''DELETE'']
           then Some (toUpperCase s) else None)
      | _ \<Rightarrow> None)"

definition z_path :: "json option \<Rightarrow> string option" where
  "z_path v =
     (case v of
        Some (JStr s) \<Rightarrow> (if startsWith s ''/'' \<and> pathIsAllowed s then Some s else None)
      | _ \<Rightarrow> None)"

definition z_query :: "json option \<Rightarrow> json option" where
  "z_query v = (case v of None \<Rightarrow> Some (JObj []) | Some (JObj kvs) \<Rightarrow> Some (JObj kvs) | _ \<Rightarrow> None)"

definition is_JStr :: "json \<Rightarrow> bool" where
  "is_JStr v = (case v of JStr s \<Rightarrow> True | _ \<Rightarrow> False)"

definition headers_refine :: "(string \<times> json) list \<Rightarrow> bool" where
  "headers_refine h = (''authorization'' \<notin> fst ` set (lower_keys h))"

definition z_headers :: "json option \<Rightarrow> json option" where
  "z_headers v =
     (case v of
        None \<Rightarrow> (if headers_refine [] then Some (JObj []) else None)
      | Some (JObj kvs) \<Rightarrow>
          (if list_all (\<lambda>(k, x). is_JStr x) kvs \<and> headers_refine kvs then Some (JObj kvs) else None)
      | _ \<Rightarrow> None)"

definition z_contentType :: "json option \<Rightarrow> string option" where
  "z_contentType v =
     (case v of None \<Rightarrow> Some ''application/json'' | Some (JStr s) \<Rightarrow> Some s | _ \<Rightarrow> None)"

definition z_timeoutMs :: "json option \<Rightarrow> int option" where
  "z_timeoutMs v =
     (case v of
        None \<Rightarrow> Some 15000
      | Some (JNum r) \<Rightarrow>
          (if rat_of_int \<lfloor>r\<rfloor> = r \<and> 0 < r \<and> r \<le> 60000 then Some \<lfloor>r\<rfloor> else None)
      | _ \<Rightarrow> None)"

definition refused :: "(string \<times> bool) list \<Rightarrow> string list" where
  "refused checks = map fst (filter (\<lambda>(name, ok). \<not> ok) checks)"

definition RequestSchema_parse :: "(string \<times> json) list \<Rightarrow> exn + forward_args" where
  "RequestSchema_parse input =
     (let f = map_of input;
          issues = refused
            [(''serviceName'', z_string_min 2 (f ''serviceName'') \<noteq> None),
             (''apiKey'', z_string_min 1 (f ''apiKey'') \<noteq> None),
             (''apiSecret'', z_string_min 1 (f ''apiSecret'') \<noteq> None),
             (''method'', z_method (f ''method'') \<noteq> None),
             (''path'', z_path (f ''path'') \<noteq> None),
             (''query'', z_query (f ''query'') \<noteq> None),
             (''headers'', z_headers (f ''headers'') \<noteq> None),
             (''contentType'', z_contentType (f ''contentType'') \<noteq> None),
             (''timeoutMs'', z_timeoutMs (f ''timeoutMs'') \<noteq> None)]
      in if issues \<noteq> [] then Inl (ZodError issues)
         else Inr \<lparr>serviceName = the (z_string_min 2 (f ''serviceName'')),
                   apiKey = the (z_string_min 1 (f ''apiKey'')),
                   apiSecret = the (z_string_min 1 (f ''apiSecret'')),
                   query = the (z_query (f ''query'')),
                   body = f ''body'',
                   headers = the (z_headers (f ''headers'')),
                   contentType = the (z_contentType (f ''contentType'')),
                   timeoutMs = the (z_timeoutMs (f ''timeoutMs'')),
                   http_method = the (z_method (f ''method'')),
                   path = the (z_path (f ''path''))\<rparr>)"

section \<open>Tool handlers\<close>

datatype content_item = TextContent string

record tool_result =
  content :: "content_item list"
  isError :: bool

text \<open>
  The handler of \<^verbatim>\<open>amadeus.request\<close>: the input is parsed and the token fetched outside
  the \<^verbatim>\<open>try\<close> block; only the upstream request is inside it.
\<close>

definition forwarding_error :: "world \<Rightarrow> js_error \<Rightarrow> tool_result" where
  "forwarding_error w e =
     (let status = (case err_response e of Some r \<Rightarrow> rs_status r | None \<Rightarrow> 500);
          data = (case (case err_response e of
                          None \<Rightarrow> None
                        | Some r \<Rightarrow> (if rs_data r = JNull then None else Some (rs_data r))) of
                    Some d \<Rightarrow> d
                  | None \<Rightarrow>
                      JObj [(''error'',
                        JStr (case err_message e of
                                Some m \<Rightarrow> (if m = [] then ''Unknown error'' else m)
                              | None \<Rightarrow> ''Unknown error''))])
      in \<lparr>content = [TextContent (''Forwarding error ('' @ dec status @ ''): '' @ text_of w data)],
          isError = True\<rparr>)"

definition amadeus_request ::
  "world \<Rightarrow> (string \<times> json) list \<Rightarrow> (exn + tool_result) \<times> request list" where
  "amadeus_request w input =
     (case RequestSchema_parse input of
        Inl e \<Rightarrow> (Inl e, [])
      | Inr a \<Rightarrow>
          (case getAmadeusToken w [] (apiKey a) (apiSecret a) (serviceName a) (Some (timeoutMs a)) of
             (Inl e, lg') \<Rightarrow> (Inl (Thrown e), lg')
           | (Inr token, lg') \<Rightarrow>
               (case axios_request w lg' (upstream_request w a token) of
                  (Inr response, lg'') \<Rightarrow>
                    (Inr \<lparr>content = [TextContent (text_of w (rs_data response))],
                          isError = (400 \<le> rs_status response)\<rparr>, lg'')
                | (Inl e, lg'') \<Rightarrow> (Inr (forwarding_error w e), lg''))))"

text \<open>
  A handler of a fixed path, here \<^verbatim>\<open>amadeus.v2.shopping.flight-offers\<close>: it normalises the
  input, calls \<^verbatim>\<open>forwardAmadeus\<close> with \<^verbatim>\<open>{ ...args, method: "GET", path: ... }\<close> and wraps
  the result. There is no \<^verbatim>\<open>try\<close> in it.
\<close>

definition flight_offers_args :: "base_args \<Rightarrow> forward_args" where
  "flight_offers_args args =
     base_args.extend args \<lparr>http_method = ''GET'', path = ''/v2/shopping/flight-offers''\<rparr>"

definition flight_offers_handler ::
  "world \<Rightarrow> (string \<times> json) list \<Rightarrow> (exn + tool_result) \<times> request list" where
  "flight_offers_handler w input =
     (case normalizeBase input of
        Inl e \<Rightarrow> (Inl (Thrown e), [])
      | Inr args \<Rightarrow>
          (case forwardAmadeus w [] (flight_offers_args args) of
             (Inl e, lg') \<Rightarrow> (Inl (Thrown e), lg')
           | (Inr r, lg') \<Rightarrow>
               (Inr \<lparr>content = [TextContent (payload r)], isError = fr_isError r\<rparr>, lg')))"

text \<open>
  The registration layer. \<^verbatim>\<open>server.registerTool(name, config, handler)\<close> hands each
  handler to the \<^verbatim>\<open>McpServer\<close> of the SDK, and a tool is invoked through it: the server
  calls the handler inside a \<^verbatim>\<open>try\<close> block; what the handler returns is the result of
  the invocation, and what it throws becomes the result
  \<^verbatim>\<open>{ content: [{ type: "text", text: error.message }], isError: true }\<close> (with
  \<^verbatim>\<open>String(error)\<close> for a thrown value that is not an \<^verbatim>\<open>Error\<close>). The input is the
  arguments that the server hands to the handler. The message of a validation error is
  the serialisation of its issues.
\<close>

fun exn_message :: "world \<Rightarrow> exn \<Rightarrow> string" where
  "exn_message w (Thrown e) =
     (case err_message e of Some m \<Rightarrow> m | None \<Rightarrow> String_of_thrown w e)"
| "exn_message w (ZodError issues) = JSON_stringify w (JArr (map JStr issues))"

definition tool_call ::
  "world \<Rightarrow> (world \<Rightarrow> (string \<times> json) list \<Rightarrow> (exn + tool_result) \<times> request list) \<Rightarrow>
   (string \<times> json) list \<Rightarrow> tool_result \<times> request list" where
  "tool_call w handler input =
     (case handler w input of
        (Inr result, lg) \<Rightarrow> (result, lg)
      | (Inl error, lg) \<Rightarrow>
          (\<lparr>content = [TextContent (exn_message w error)], isError = True\<rparr>, lg))"

section \<open>Sample worlds and inputs\<close>

text \<open>
  Concrete worlds for the examples of the specification. The network answers the first
  request of a call (the token exchange) with one reply and every later request with
  another. The platform functions of a sample world are tables that cover the values of
  the examples only: objects with one property that holds a string free of characters
  to escape, or the empty array.
\<close>

definition sample_stringify :: "json \<Rightarrow> string" where
  \<open>sample_stringify v =
     (case v of
        JObj [(k, JStr s)] \<Rightarrow> ''{"'' @ k @ ''":"'' @ s @ ''"}''
      | JObj [(k, JArr [])] \<Rightarrow> ''{"'' @ k @ ''":[]}''
      | _ \<Rightarrow> ''null'')\<close>

fun sample_form :: "(string \<times> string) list \<Rightarrow> string" where
  "sample_form [] = []"
| "sample_form [(k, v)] = k @ ''='' @ v"
| "sample_form ((k, v) # kv # kvs) = k @ ''='' @ v @ ''&'' @ sample_form (kv # kvs)"

definition sample_world :: "reply \<Rightarrow> reply \<Rightarrow> world" where
  "sample_world token_reply main_reply =
     \<lparr>net = (\<lambda>n rq. if n = 0 then token_reply else main_reply),
      JSON_stringify = sample_stringify,
      String_of = (\<lambda>v. ''[object Object]''),
      form_toString = sample_form,
      String_of_thrown = (\<lambda>e. ''[object Object]'')\<rparr>"

definition token_ok :: reply where
  "token_ok = Completed \<lparr>rs_status = 200, rs_data = JObj [(''access_token'', JStr ''abc'')]\<rparr>"

definition token_missing :: reply where
  "token_missing = Completed \<lparr>rs_status = 200, rs_data = JObj [(''token_type'', JStr ''Bearer'')]\<rparr>"

definition token_denied :: reply where
  "token_denied = Completed \<lparr>rs_status = 401, rs_data = JObj [(''error'', JStr ''invalid_client'')]\<rparr>"

definition main_ok :: reply where
  "main_ok = Completed \<lparr>rs_status = 200, rs_data = JObj [(''data'', JArr [])]\<rparr>"

definition main_not_found :: reply where
  "main_not_found = Completed \<lparr>rs_status = 404, rs_data = JObj [(''error'', JStr ''not found'')]\<rparr>"

definition host_unreachable :: reply where
  "host_unreachable = Failed (JsError (Some ''connect ECONNREFUSED'') None)"

definition sample_input :: "(string \<times> json) list" where
  "sample_input =
     [(''serviceName'', JStr ''test''), (''apiKey'', JStr ''k''), (''apiSecret'', JStr ''s''),
      (''method'', JStr ''get''), (''path'', JStr ''/v2/shopping/flight-offers''),
      (''headers'', JObj [(''X-Trace'', JStr ''1'')])]"

definition sample_args :: forward_args where
  "sample_args =
     \<lparr>serviceName = ''test'', apiKey = ''k'', apiSecret = ''s'', query = JObj [], body = None,
      headers = JObj [(''X-Trace'', JStr ''1'')], contentType = ''application/json'',
      timeoutMs = 15000, http_method = ''GET'', path = ''/v2/shopping/flight-offers''\<rparr>"

definition smuggling_input :: "(string \<times> json) list" where
  "smuggling_input =
     [(''serviceName'', JStr ''test''), (''apiKey'', JStr ''k''), (''apiSecret'', JStr ''s''),
      (''method'', JStr ''get''), (''path'', JStr ''/v2/shopping/flight-offers''),
      (''headers'', JObj [(''AUTHORIZATION'', JStr ''Bearer stolen'')])]"

definition with_timeout :: "json \<Rightarrow> (string \<times> json) list" where
  "with_timeout v = (''timeoutMs'', v) # sample_input"

section \<open>Properties of the PathMatcher\<close>

subsection \<open>Splitting and joining\<close>

lemma split_slash_not_Nil: "split_slash s \<noteq> []"
  by (induction s) (auto split: list.splits)

lemma split_slash_noslash: "seg \<in> set (split_slash s) \<Longrightarrow> CHR ''/'' \<notin> set seg"
  by (induction s arbitrary: seg) (auto split: list.splits if_splits)

lemma join_split_slash: "join_slash (split_slash s) = s"
proof (induction s)
  case Nil
  show ?case by simp
next
  case (Cons c cs)
  obtain seg segs where sp: "split_slash cs = seg # segs"
    using split_slash_not_Nil [of cs] by (cases "split_slash cs") auto
  show ?case
  proof (cases "c = CHR ''/''")
    case True
    with Cons sp show ?thesis by simp
  next
    case False
    with Cons sp show ?thesis by (cases segs) auto
  qed
qed

lemma split_slash_plain: "CHR ''/'' \<notin> set seg \<Longrightarrow> split_slash seg = [seg]"
  by (induction seg) auto

lemma split_slash_append:
  "split_slash (xs @ CHR ''/'' # ys) = split_slash xs @ split_slash ys"
proof (induction xs)
  case Nil
  show ?case by simp
next
  case (Cons c cs)
  then show ?case
    using split_slash_not_Nil [of cs] by (cases "split_slash cs") auto
qed

lemma split_join_slash:
  "segs \<noteq> [] \<Longrightarrow> \<forall>seg \<in> set segs. CHR ''/'' \<notin> set seg \<Longrightarrow>
   split_slash (join_slash segs) = segs"
proof (induction segs rule: join_slash.induct)
  case 1
  then show ?case by simp
next
  case (2 seg)
  then show ?case by (simp add: split_slash_plain)
next
  case (3 seg seg' segs)
  then show ?case by (simp add: split_slash_append split_slash_plain)
qed

lemma split_slash_eq_iff:
  "split_slash s = segs \<longleftrightarrow>
   segs \<noteq> [] \<and> (\<forall>seg \<in> set segs. CHR ''/'' \<notin> set seg) \<and> s = join_slash segs"
  using split_slash_not_Nil split_slash_noslash join_split_slash split_join_slash by metis

lemma rx_match_Chr:
  "rx_match (Chr c # r) s \<longleftrightarrow> (\<exists>rest. s = c # rest \<and> rx_match r rest)"
  by (cases s) auto

lemma rx_match_lits:
  "rx_match (map Chr lit @ r) s \<longleftrightarrow> (\<exists>rest. s = lit @ rest \<and> rx_match r rest)"
  by (induction lit arbitrary: s) (auto simp: rx_match_Chr)

lemma rx_match_plus:
  "rx_match (NotSlashPlus # r) s \<longleftrightarrow>
   (\<exists>x rest. s = x @ rest \<and> x \<noteq> [] \<and> CHR ''/'' \<notin> set x \<and> rx_match r rest)"
proof (induction s)
  case Nil
  show ?case by simp
next
  case (Cons c cs)
  show ?case
  proof
    assume "rx_match (NotSlashPlus # r) (c # cs)"
    then have c: "c \<noteq> CHR ''/''" and d: "rx_match r cs \<or> rx_match (NotSlashPlus # r) cs"
      by auto
    from d show "\<exists>x rest. c # cs = x @ rest \<and> x \<noteq> [] \<and> CHR ''/'' \<notin> set x \<and> rx_match r rest"
    proof
      assume "rx_match r cs"
      with c have "c # cs = [c] @ cs \<and> [c] \<noteq> [] \<and> CHR ''/'' \<notin> set [c] \<and> rx_match r cs" by simp
      then show ?thesis by blast
    next
      assume "rx_match (NotSlashPlus # r) cs"
      with Cons obtain x rest where "cs = x @ rest" "x \<noteq> []" "CHR ''/'' \<notin> set x" "rx_match r rest"
        by blast
      with c have "c # cs = (c # x) @ rest \<and> c # x \<noteq> [] \<and> CHR ''/'' \<notin> set (c # x) \<and> rx_match r rest"
        by simp
      then show ?thesis by blast
    qed
  next
    assume "\<exists>x rest. c # cs = x @ rest \<and> x \<noteq> [] \<and> CHR ''/'' \<notin> set x \<and> rx_match r rest"
    then obtain x rest where h: "c # cs = x @ rest" "x \<noteq> []" "CHR ''/'' \<notin> set x" "rx_match r rest"
      by blast
    then obtain x' where x: "x = c # x'" by (cases x) auto
    with h have cs: "cs = x' @ rest" and c: "c \<noteq> CHR ''/''" and x': "CHR ''/'' \<notin> set x'" by auto
    show "rx_match (NotSlashPlus # r) (c # cs)"
    proof (cases "x' = []")
      case True
      with cs h c show ?thesis by simp
    next
      case False
      with cs x' h Cons have "rx_match (NotSlashPlus # r) cs" by blast
      with c show ?thesis by simp
    qed
  qed
qed

lemma rx_match_Nil: "rx_match [] s \<longleftrightarrow> s = []"
  by (cases s) auto


subsection \<open>The three templates\<close>

lemma templates:
  "filter (\<lambda>p. str_includes p CHR '':'') ALLOWED_PATHS =
     [''/v1/booking/flight-orders/:flightOrderId'',
      ''/v1/ordering/transfer-orders/:transferOrderId/transfers/cancellation'',
      ''/v3/shopping/hotel-offers/:hotelOfferId'']"
  by (simp add: ALLOWED_PATHS_def str_includes_def)

lemma template_loop_iff:
  "template_loop ps s \<longleftrightarrow>
   (\<exists>p \<in> set (filter (\<lambda>p. str_includes p CHR '':'') ps). regex_test (regex_body p) s)"
  by (induction ps) auto

lemma regex_flight_order:
  "regex_test (regex_body ''/v1/booking/flight-orders/:flightOrderId'') s \<longleftrightarrow>
   (\<exists>x. s = ''/v1/booking/flight-orders/'' @ x \<and> x \<noteq> [] \<and> CHR ''/'' \<notin> set x)"
proof -
  have "compile_rx (regex_body ''/v1/booking/flight-orders/:flightOrderId'') =
        map Chr ''/v1/booking/flight-orders/'' @ [NotSlashPlus]"
    by (simp add: regex_body_def startsWith_def)
  then show ?thesis
    unfolding regex_test_def by (simp only: rx_match_lits rx_match_plus rx_match_Nil) auto
qed

lemma regex_hotel_offer:
  "regex_test (regex_body ''/v3/shopping/hotel-offers/:hotelOfferId'') s \<longleftrightarrow>
   (\<exists>x. s = ''/v3/shopping/hotel-offers/'' @ x \<and> x \<noteq> [] \<and> CHR ''/'' \<notin> set x)"
proof -
  have "compile_rx (regex_body ''/v3/shopping/hotel-offers/:hotelOfferId'') =
        map Chr ''/v3/shopping/hotel-offers/'' @ [NotSlashPlus]"
    by (simp add: regex_body_def startsWith_def)
  then show ?thesis
    unfolding regex_test_def by (simp only: rx_match_lits rx_match_plus rx_match_Nil) auto
qed

lemma regex_transfer_cancel:
  "regex_test (regex_body ''/v1/ordering/transfer-orders/:transferOrderId/transfers/cancellation'') s \<longleftrightarrow>
   (\<exists>x. s = ''/v1/ordering/transfer-orders/'' @ x @ ''/transfers/cancellation'' \<and> x \<noteq> [] \<and> CHR ''/'' \<notin> set x)"
proof -
  have "compile_rx (regex_body ''/v1/ordering/transfer-orders/:transferOrderId/transfers/cancellation'') =
        map Chr ''/v1/ordering/transfer-orders/'' @ NotSlashPlus # (map Chr ''/transfers/cancellation'' @ [])"
    by (simp add: regex_body_def startsWith_def)
  then show ?thesis
    unfolding regex_test_def by (simp only: rx_match_lits rx_match_plus rx_match_Nil) auto
qed

lemma matches_flight_order:
  "template_matches ''/v1/booking/flight-orders/:flightOrderId'' s \<longleftrightarrow>
   (\<exists>x. s = ''/v1/booking/flight-orders/'' @ x \<and> x \<noteq> [] \<and> CHR ''/'' \<notin> set x)"
proof -
  have segs: "template_matches ''/v1/booking/flight-orders/:flightOrderId'' s \<longleftrightarrow>
    (\<exists>x. split_slash s = [[], ''v1'', ''booking'', ''flight-orders'', x] \<and>
         x \<noteq> [] \<and> CHR ''/'' \<notin> set x)"
    by (auto simp add: template_matches_def list_all2_Cons1 seg_match_def startsWith_def)
  show ?thesis
  proof
    assume "template_matches ''/v1/booking/flight-orders/:flightOrderId'' s"
    then obtain x where x: "split_slash s = [[], ''v1'', ''booking'', ''flight-orders'', x]"
      "x \<noteq> []" "CHR ''/'' \<notin> set x"
      unfolding segs by blast
    have "s = join_slash (split_slash s)" by (simp only: join_split_slash)
    also have "\<dots> = ''/v1/booking/flight-orders/'' @ x" unfolding x(1) by simp
    finally show "\<exists>x. s = ''/v1/booking/flight-orders/'' @ x \<and> x \<noteq> [] \<and> CHR ''/'' \<notin> set x"
      using x by blast
  next
    assume "\<exists>x. s = ''/v1/booking/flight-orders/'' @ x \<and> x \<noteq> [] \<and> CHR ''/'' \<notin> set x"
    then obtain x where x: "s = ''/v1/booking/flight-orders/'' @ x" "x \<noteq> []" "CHR ''/'' \<notin> set x"
      by blast
    have "split_slash s = [[], ''v1'', ''booking'', ''flight-orders'', x]"
      unfolding x(1) using x(3) by (simp add: split_slash_plain split_slash_append)
    with x show "template_matches ''/v1/booking/flight-orders/:flightOrderId'' s"
      unfolding segs by blast
  qed
qed

lemma matches_transfer_cancel:
  "template_matches ''/v1/ordering/transfer-orders/:transferOrderId/transfers/cancellation'' s \<longleftrightarrow>
   (\<exists>x. s = ''/v1/ordering/transfer-orders/'' @ x @ ''/transfers/cancellation'' \<and> x \<noteq> [] \<and> CHR ''/'' \<notin> set x)"
proof -
  have segs: "template_matches ''/v1/ordering/transfer-orders/:transferOrderId/transfers/cancellation'' s \<longleftrightarrow>
    (\<exists>x. split_slash s = [[], ''v1'', ''ordering'', ''transfer-orders'', x, ''transfers'', ''cancellation''] \<and>
         x \<noteq> [] \<and> CHR ''/'' \<notin> set x)"
    by (auto simp add: template_matches_def list_all2_Cons1 seg_match_def startsWith_def)
  show ?thesis
  proof
    assume "template_matches ''/v1/ordering/transfer-orders/:transferOrderId/transfers/cancellation'' s"
    then obtain x where x: "split_slash s = [[], ''v1'', ''ordering'', ''transfer-orders'', x, ''transfers'', ''cancellation'']"
      "x \<noteq> []" "CHR ''/'' \<notin> set x"
      unfolding segs by blast
    have "s = join_slash (split_slash s)" by (simp only: join_split_slash)
    also have "\<dots> = ''/v1/ordering/transfer-orders/'' @ x @ ''/transfers/cancellation''" unfolding x(1) by simp
    finally show "\<exists>x. s = ''/v1/ordering/transfer-orders/'' @ x @ ''/transfers/cancellation'' \<and> x \<noteq> [] \<and> CHR ''/'' \<notin> set x"
      using x by blast
  next
    assume "\<exists>x. s = ''/v1/ordering/transfer-orders/'' @ x @ ''/transfers/cancellation'' \<and> x \<noteq> [] \<and> CHR ''/'' \<notin> set x"
    then obtain x where x: "s = ''/v1/ordering/transfer-orders/'' @ x @ ''/transfers/cancellation''" "x \<noteq> []" "CHR ''/'' \<notin> set x"
      by blast
    have "split_slash s = [[], ''v1'', ''ordering'', ''transfer-orders'', x, ''transfers'', ''cancellation'']"
      unfolding x(1) using x(3) by (simp add: split_slash_plain split_slash_append)
    with x show "template_matches ''/v1/ordering/transfer-orders/:transferOrderId/transfers/cancellation'' s"
      unfolding segs by blast
  qed
qed

lemma matches_hotel_offer:
  "template_matches ''/v3/shopping/hotel-offers/:hotelOfferId'' s \<longleftrightarrow>
   (\<exists>x. s = ''/v3/shopping/hotel-offers/'' @ x \<and> x \<noteq> [] \<and> CHR ''/'' \<notin> set x)"
proof -
  have segs: "template_matches ''/v3/shopping/hotel-offers/:hotelOfferId'' s \<longleftrightarrow>
    (\<exists>x. split_slash s = [[], ''v3'', ''shopping'', ''hotel-offers'', x] \<and>
         x \<noteq> [] \<and> CHR ''/'' \<notin> set x)"
    by (auto simp add: template_matches_def list_all2_Cons1 seg_match_def startsWith_def)
  show ?thesis
  proof
    assume "template_matches ''/v3/shopping/hotel-offers/:hotelOfferId'' s"
    then obtain x where x: "split_slash s = [[], ''v3'', ''shopping'', ''hotel-offers'', x]"
      "x \<noteq> []" "CHR ''/'' \<notin> set x"
      unfolding segs by blast
    have "s = join_slash (split_slash s)" by (simp only: join_split_slash)
    also have "\<dots> = ''/v3/shopping/hotel-offers/'' @ x" unfolding x(1) by simp
    finally show "\<exists>x. s = ''/v3/shopping/hotel-offers/'' @ x \<and> x \<noteq> [] \<and> CHR ''/'' \<notin> set x"
      using x by blast
  next
    assume "\<exists>x. s = ''/v3/shopping/hotel-offers/'' @ x \<and> x \<noteq> [] \<and> CHR ''/'' \<notin> set x"
    then obtain x where x: "s = ''/v3/shopping/hotel-offers/'' @ x" "x \<noteq> []" "CHR ''/'' \<notin> set x"
      by blast
    have "split_slash s = [[], ''v3'', ''shopping'', ''hotel-offers'', x]"
      unfolding x(1) using x(3) by (simp add: split_slash_plain split_slash_append)
    with x show "template_matches ''/v3/shopping/hotel-offers/:hotelOfferId'' s"
      unfolding segs by blast
  qed
qed


lemma regex_test_is_template_match:
  assumes "p \<in> set ALLOWED_PATHS" "str_includes p CHR '':''"
  shows "regex_test (regex_body p) s = template_matches p s"
proof -
  from assms have "p \<in> set (filter (\<lambda>p. str_includes p CHR '':'') ALLOWED_PATHS)" by simp
  then have "p = ''/v1/booking/flight-orders/:flightOrderId'' \<or>
     p = ''/v1/ordering/transfer-orders/:transferOrderId/transfers/cancellation'' \<or>
     p = ''/v3/shopping/hotel-offers/:hotelOfferId''"
    unfolding templates by simp
  then show ?thesis
  proof (elim disjE)
    assume "p = ''/v1/booking/flight-orders/:flightOrderId''"
    then show ?thesis by (simp only: regex_flight_order matches_flight_order)
  next
    assume "p = ''/v1/ordering/transfer-orders/:transferOrderId/transfers/cancellation''"
    then show ?thesis by (simp only: regex_transfer_cancel matches_transfer_cancel)
  next
    assume "p = ''/v3/shopping/hotel-offers/:hotelOfferId''"
    then show ?thesis by (simp only: regex_hotel_offer matches_hotel_offer)
  qed
qed

lemma pathIsAllowed_iff:
  "pathIsAllowed s \<longleftrightarrow>
   s \<in> set ALLOWED_PATHS \<or>
   (\<exists>p \<in> set ALLOWED_PATHS. str_includes p CHR '':'' \<and> template_matches p s)"
proof -
  have "template_loop ALLOWED_PATHS s \<longleftrightarrow>
    (\<exists>p \<in> set ALLOWED_PATHS. str_includes p CHR '':'' \<and> template_matches p s)"
    unfolding template_loop_iff using regex_test_is_template_match by auto
  then show ?thesis
    unfolding pathIsAllowed_def by simp
qed


subsection \<open>Candidates accepted and refused\<close>

lemma pathIsAllowed_cases:
  "pathIsAllowed s \<longleftrightarrow>
   s \<in> set ALLOWED_PATHS \<or>
   (\<exists>x. x \<noteq> [] \<and> CHR ''/'' \<notin> set x \<and>
     (s = ''/v1/booking/flight-orders/'' @ x \<or>
      s = ''/v1/ordering/transfer-orders/'' @ x @ ''/transfers/cancellation'' \<or>
      s = ''/v3/shopping/hotel-offers/'' @ x))"
  unfolding pathIsAllowed_def template_loop_iff templates
  by (simp only: list.set ball_simps bex_simps insert_iff empty_iff bex_triv_one_point1 bex_triv_one_point2
        regex_flight_order regex_transfer_cancel regex_hotel_offer simp_thms if_True if_False split: if_splits) blast

lemma allowed_no_query_chars:
  "l \<in> set ALLOWED_PATHS \<Longrightarrow> CHR ''?'' \<notin> set l \<and> CHR ''#'' \<notin> set l"
  by (auto simp add: ALLOWED_PATHS_def)

lemma allowed_under_flight_order:
  "''/v1/booking/flight-orders/'' @ x \<in> set ALLOWED_PATHS \<Longrightarrow> x = '':flightOrderId''"
  by (simp add: ALLOWED_PATHS_def)

lemma allowed_under_hotel_offer:
  "''/v3/shopping/hotel-offers/'' @ x \<in> set ALLOWED_PATHS \<Longrightarrow> x = '':hotelOfferId''"
  by (simp add: ALLOWED_PATHS_def)

lemma allowed_under_transfer_order:
  "''/v1/ordering/transfer-orders/'' @ x \<in> set ALLOWED_PATHS \<Longrightarrow>
   x = '':transferOrderId/transfers/cancellation''"
  by (simp add: ALLOWED_PATHS_def)

lemma literal_suffixed_rejected:
  assumes c: "c = CHR ''?'' \<or> c = CHR ''#''"
    and l: "l \<in> set ALLOWED_PATHS" and lit: "\<not> str_includes l CHR '':''"
  shows "\<not> pathIsAllowed (l @ c # q)"
proof
  assume "pathIsAllowed (l @ c # q)"
  then consider (mem) "l @ c # q \<in> set ALLOWED_PATHS"
    | (t1) x where "CHR ''/'' \<notin> set x" "l @ c # q = ''/v1/booking/flight-orders/'' @ x"
    | (t2) x where "CHR ''/'' \<notin> set x" "l @ c # q = ''/v1/ordering/transfer-orders/'' @ x @ ''/transfers/cancellation''"
    | (t3) x where "CHR ''/'' \<notin> set x" "l @ c # q = ''/v3/shopping/hotel-offers/'' @ x"
    unfolding pathIsAllowed_cases by blast
  then show False
  proof cases
    case mem
    from allowed_no_query_chars [OF mem] c show False by auto
  next
    case t1
    with l lit c show False
      by (auto simp add: ALLOWED_PATHS_def str_includes_def)
  next
    case t2
    with l lit c show False
      by (auto simp add: ALLOWED_PATHS_def str_includes_def)
  next
    case t3
    with l lit c show False
      by (auto simp add: ALLOWED_PATHS_def str_includes_def)
  qed
qed

lemma substitute_templates:
  "substitute ''/v1/booking/flight-orders/:flightOrderId'' seg = ''/v1/booking/flight-orders/'' @ seg"
  "substitute ''/v1/ordering/transfer-orders/:transferOrderId/transfers/cancellation'' seg =
     ''/v1/ordering/transfer-orders/'' @ seg @ ''/transfers/cancellation''"
  "substitute ''/v3/shopping/hotel-offers/:hotelOfferId'' seg = ''/v3/shopping/hotel-offers/'' @ seg"
  by (simp_all add: substitute_def startsWith_def)

lemma template_cases:
  assumes "p \<in> set ALLOWED_PATHS" "str_includes p CHR '':''"
  shows "p = ''/v1/booking/flight-orders/:flightOrderId'' \<or>
     p = ''/v1/ordering/transfer-orders/:transferOrderId/transfers/cancellation'' \<or>
     p = ''/v3/shopping/hotel-offers/:hotelOfferId''"
proof -
  from assms have "p \<in> set (filter (\<lambda>p. str_includes p CHR '':'') ALLOWED_PATHS)" by simp
  then show ?thesis unfolding templates by simp
qed

lemma substitute_allowed_iff:
  assumes "p \<in> set ALLOWED_PATHS" "str_includes p CHR '':''"
  shows "pathIsAllowed (substitute p seg) \<longleftrightarrow> seg \<noteq> [] \<and> CHR ''/'' \<notin> set seg"
proof -
  from template_cases [OF assms] show ?thesis
  proof (elim disjE)
    assume p: "p = ''/v1/booking/flight-orders/:flightOrderId''"
    have "''/v1/booking/flight-orders/'' @ seg \<in> set ALLOWED_PATHS \<Longrightarrow>
          seg \<noteq> [] \<and> CHR ''/'' \<notin> set seg"
      using allowed_under_flight_order [of seg] by auto
    then show ?thesis
      unfolding p substitute_templates pathIsAllowed_cases by auto
  next
    assume p: "p = ''/v3/shopping/hotel-offers/:hotelOfferId''"
    have "''/v3/shopping/hotel-offers/'' @ seg \<in> set ALLOWED_PATHS \<Longrightarrow>
          seg \<noteq> [] \<and> CHR ''/'' \<notin> set seg"
      using allowed_under_hotel_offer [of seg] by auto
    then show ?thesis
      unfolding p substitute_templates pathIsAllowed_cases by auto
  next
    assume p: "p = ''/v1/ordering/transfer-orders/:transferOrderId/transfers/cancellation''"
    have "''/v1/ordering/transfer-orders/'' @ seg @ ''/transfers/cancellation'' \<in> set ALLOWED_PATHS \<Longrightarrow>
          seg \<noteq> [] \<and> CHR ''/'' \<notin> set seg"
    proof -
      assume "''/v1/ordering/transfer-orders/'' @ seg @ ''/transfers/cancellation'' \<in> set ALLOWED_PATHS"
      then have "seg @ ''/transfers/cancellation'' = '':transferOrderId'' @ ''/transfers/cancellation''"
        using allowed_under_transfer_order [of "seg @ ''/transfers/cancellation''"] by simp
      then have "seg = '':transferOrderId''" by (simp only: append_same_eq)
      then show ?thesis by simp
    qed
    then show ?thesis
      unfolding p substitute_templates pathIsAllowed_cases by auto
  qed
qed

lemma allowed_under_template_prefix:
  assumes "l \<in> set ALLOWED_PATHS"
    and "l = ''/v1/booking/flight-orders/'' @ w \<or> l = ''/v1/ordering/transfer-orders/'' @ w \<or>
         l = ''/v3/shopping/hotel-offers/'' @ w"
  shows "str_includes l CHR '':''"
  using assms allowed_under_flight_order [of w] allowed_under_transfer_order [of w]
    allowed_under_hotel_offer [of w]
  by (auto simp add: str_includes_def)

section \<open>Claims about the PathMatcher\<close>

text \<open>
  Claim C1, as amended. \<^verbatim>\<open>pathIsAllowed\<close> strips nothing: it matches the whole candidate,
  \<^verbatim>\<open>?\<close> and \<^verbatim>\<open>#\<close> included. No entry of the allowlist holds one of these two characters,
  so a candidate that holds one is never accepted by exact match; it is accepted exactly
  when the whole string matches a template with a placeholder (the character then lies
  inside the segment that faces the placeholder). An entry without placeholder followed
  by a suffix that starts with \<^verbatim>\<open>?\<close> or \<^verbatim>\<open>#\<close> is always refused.
\<close>

theorem whole_string_matched:
  assumes "c = CHR ''?'' \<or> c = CHR ''#''"
  shows "(c \<in> set s \<longrightarrow> s \<notin> set ALLOWED_PATHS) \<and>
         (c \<in> set s \<longrightarrow>
            pathIsAllowed s =
              (\<exists>p \<in> set ALLOWED_PATHS. str_includes p CHR '':'' \<and> template_matches p s)) \<and>
         (l \<in> set ALLOWED_PATHS \<and> \<not> str_includes l CHR '':'' \<longrightarrow> \<not> pathIsAllowed (l @ c # q))"
proof -
  have a: "c \<in> set s \<longrightarrow> s \<notin> set ALLOWED_PATHS"
    using assms allowed_no_query_chars [of s] by blast
  then have b: "c \<in> set s \<longrightarrow>
            pathIsAllowed s =
              (\<exists>p \<in> set ALLOWED_PATHS. str_includes p CHR '':'' \<and> template_matches p s)"
    unfolding pathIsAllowed_iff by blast
  from a b literal_suffixed_rejected [OF assms] show ?thesis by blast
qed

theorem whole_string_matched_witness:
  "CHR ''?'' \<in> set ''/v1/booking/flight-orders/a?b'' \<and>
   ''/v1/booking/flight-orders/a?b'' \<notin> set ALLOWED_PATHS \<and>
   pathIsAllowed ''/v1/booking/flight-orders/a?b'' \<and>
   ''/v2/schedule/flights'' \<in> set ALLOWED_PATHS \<and>
   \<not> str_includes ''/v2/schedule/flights'' CHR '':'' \<and>
   \<not> pathIsAllowed (''/v2/schedule/flights'' @ CHR ''?'' # ''a=/b'')"
proof -
  have c: "CHR ''?'' = CHR ''?'' \<or> CHR ''?'' = CHR ''#''" by simp
  have m: "CHR ''?'' \<in> set ''/v1/booking/flight-orders/a?b''" by simp
  have t: "''/v1/booking/flight-orders/:flightOrderId'' \<in> set ALLOWED_PATHS"
    "str_includes ''/v1/booking/flight-orders/:flightOrderId'' CHR '':''"
    by (simp_all add: ALLOWED_PATHS_def str_includes_def)
  have tm: "template_matches ''/v1/booking/flight-orders/:flightOrderId'' ''/v1/booking/flight-orders/a?b''"
    by (simp add: template_matches_def seg_match_def startsWith_def)
  have l: "''/v2/schedule/flights'' \<in> set ALLOWED_PATHS"
    "\<not> str_includes ''/v2/schedule/flights'' CHR '':''"
    by (simp_all add: ALLOWED_PATHS_def str_includes_def)
  from whole_string_matched [OF c, of "''/v1/booking/flight-orders/a?b''" "''/v2/schedule/flights''" "''a=/b''"]
    m t tm l show ?thesis by blast
qed

text \<open>
  Claim C1 as stated fails. The candidate \<^verbatim>\<open>/v1/booking/flight-orders/?x=1\<close> is accepted
  although its path component \<^verbatim>\<open>/v1/booking/flight-orders/\<close> is refused, and
  \<^verbatim>\<open>/v2/shopping/flight-offers?x=1\<close> is refused although its path component is an entry
  of the allowlist: no suffix is stripped before matching.
\<close>

theorem query_suffix_counterexample:
  "pathIsAllowed ''/v1/booking/flight-orders/?x=1'' \<and>
   strip_query_fragment ''/v1/booking/flight-orders/?x=1'' = ''/v1/booking/flight-orders/'' \<and>
   \<not> pathIsAllowed ''/v1/booking/flight-orders/'' \<and>
   strip_query_fragment ''/v2/shopping/flight-offers?x=1'' = ''/v2/shopping/flight-offers'' \<and>
   pathIsAllowed ''/v2/shopping/flight-offers'' \<and>
   \<not> pathIsAllowed ''/v2/shopping/flight-offers?x=1''"
  by (simp add: pathIsAllowed_def ALLOWED_PATHS_def str_includes_def regex_test_def
        regex_body_def startsWith_def strip_query_fragment_def)

text \<open>
  Claim C5, as amended. For every entry \<open>p\<close> of the allowlist with a placeholder:
  \<^verbatim>\<open>pathIsAllowed\<close> accepts the path obtained by putting a non-empty segment without slash
  in the place of the placeholder, and refuses it when the segment is empty or holds a
  slash; the regular expression built from \<open>p\<close> accepts a candidate exactly when the
  candidate matches \<open>p\<close> segment for segment, so never when the candidate has more or
  fewer segments than \<open>p\<close>; and \<^verbatim>\<open>pathIsAllowed\<close> refuses a candidate with more or fewer
  segments than \<open>p\<close> unless the candidate is itself an entry of the allowlist or
  matches another template (so a candidate whose number of segments differs from that
  of every template is refused unless it is an entry).
\<close>

theorem template_substitution:
  assumes "p \<in> set ALLOWED_PATHS" "str_includes p CHR '':''"
  shows "(seg \<noteq> [] \<and> CHR ''/'' \<notin> set seg \<longrightarrow> pathIsAllowed (substitute p seg)) \<and>
         (seg = [] \<or> CHR ''/'' \<in> set seg \<longrightarrow> \<not> pathIsAllowed (substitute p seg)) \<and>
         regex_test (regex_body p) s = template_matches p s \<and>
         (length (split_slash s) \<noteq> length (split_slash p) \<longrightarrow> \<not> regex_test (regex_body p) s) \<and>
         (length (split_slash s) \<noteq> length (split_slash p) \<and>
          s \<notin> set ALLOWED_PATHS \<and>
          \<not> (\<exists>q \<in> set ALLOWED_PATHS. str_includes q CHR '':'' \<and> q \<noteq> p \<and> template_matches q s) \<longrightarrow>
            \<not> pathIsAllowed s) \<and>
         (s \<notin> set ALLOWED_PATHS \<and>
          (\<forall>q \<in> set ALLOWED_PATHS. str_includes q CHR '':'' \<longrightarrow>
             length (split_slash s) \<noteq> length (split_slash q)) \<longrightarrow> \<not> pathIsAllowed s)"
proof -
  have len: "template_matches q s \<Longrightarrow> length (split_slash s) = length (split_slash q)" for q
    unfolding template_matches_def by (simp add: list_all2_lengthD)
  have a: "regex_test (regex_body p) s = template_matches p s"
    using assms by (rule regex_test_is_template_match)
  have b: "length (split_slash s) \<noteq> length (split_slash p) \<longrightarrow> \<not> regex_test (regex_body p) s"
    unfolding a using len by blast
  have c: "length (split_slash s) \<noteq> length (split_slash p) \<and>
          s \<notin> set ALLOWED_PATHS \<and>
          \<not> (\<exists>q \<in> set ALLOWED_PATHS. str_includes q CHR '':'' \<and> q \<noteq> p \<and> template_matches q s) \<longrightarrow>
            \<not> pathIsAllowed s"
    unfolding pathIsAllowed_iff using len [of p] by blast
  have d: "s \<notin> set ALLOWED_PATHS \<and>
          (\<forall>q \<in> set ALLOWED_PATHS. str_includes q CHR '':'' \<longrightarrow>
             length (split_slash s) \<noteq> length (split_slash q)) \<longrightarrow> \<not> pathIsAllowed s"
    unfolding pathIsAllowed_iff using len by blast
  have e: "seg \<noteq> [] \<and> CHR ''/'' \<notin> set seg \<longrightarrow> pathIsAllowed (substitute p seg)"
    using substitute_allowed_iff [OF assms, of seg] by blast
  have f: "seg = [] \<or> CHR ''/'' \<in> set seg \<longrightarrow> \<not> pathIsAllowed (substitute p seg)"
    using substitute_allowed_iff [OF assms, of seg] by blast
  show ?thesis by (intro conjI; fact)
qed

theorem template_substitution_witness:
  "''/v1/booking/flight-orders/:flightOrderId'' \<in> set ALLOWED_PATHS \<and>
   str_includes ''/v1/booking/flight-orders/:flightOrderId'' CHR '':'' \<and>
   pathIsAllowed ''/v1/booking/flight-orders/ABC123'' \<and>
   \<not> pathIsAllowed ''/v1/booking/flight-orders/'' \<and>
   \<not> pathIsAllowed ''/v1/booking/flight-orders/ABC/extra'' \<and>
   ''/v1/ordering/transfer-orders/:transferOrderId/transfers/cancellation'' \<in> set ALLOWED_PATHS \<and>
   length (split_slash ''/v1/ordering/transfer-orders/X1'') \<noteq>
     length (split_slash ''/v1/ordering/transfer-orders/:transferOrderId/transfers/cancellation'') \<and>
   \<not> pathIsAllowed ''/v1/ordering/transfer-orders/X1''"
proof -
  let ?p = "''/v1/booking/flight-orders/:flightOrderId''"
  let ?t = "''/v1/ordering/transfer-orders/:transferOrderId/transfers/cancellation''"
  let ?x = "''/v1/booking/flight-orders/ABC/extra''"
  let ?y = "''/v1/ordering/transfer-orders/X1''"
  have p: "?p \<in> set ALLOWED_PATHS" "str_includes ?p CHR '':''"
    by (simp_all add: ALLOWED_PATHS_def str_includes_def)
  have t: "?t \<in> set ALLOWED_PATHS" "str_includes ?t CHR '':''"
    by (simp_all add: ALLOWED_PATHS_def str_includes_def)
  have s1: "substitute ?p ''ABC123'' = ''/v1/booking/flight-orders/ABC123''"
    and s2: "substitute ?p [] = ''/v1/booking/flight-orders/''"
    by (simp_all add: substitute_def startsWith_def)
  have ok: "''ABC123'' \<noteq> [] \<and> CHR ''/'' \<notin> set ''ABC123''" by simp
  have x1: "?x \<notin> set ALLOWED_PATHS"
    by (simp add: ALLOWED_PATHS_def)
  have "\<forall>q \<in> set (filter (\<lambda>p. str_includes p CHR '':'') ALLOWED_PATHS).
             length (split_slash ?x) \<noteq> length (split_slash q)"
    unfolding templates by simp
  then have x2: "\<forall>q \<in> set ALLOWED_PATHS. str_includes q CHR '':'' \<longrightarrow>
             length (split_slash ?x) \<noteq> length (split_slash q)"
    by simp
  have y1: "?y \<notin> set ALLOWED_PATHS"
    by (simp add: ALLOWED_PATHS_def)
  have y2: "length (split_slash ?y) \<noteq> length (split_slash ?t)"
    by simp
  have "\<not> (\<exists>q \<in> set (filter (\<lambda>p. str_includes p CHR '':'') ALLOWED_PATHS).
             q \<noteq> ?t \<and> template_matches q ?y)"
    unfolding templates by (simp add: template_matches_def seg_match_def startsWith_def)
  then have y3: "\<not> (\<exists>q \<in> set ALLOWED_PATHS. str_includes q CHR '':'' \<and> q \<noteq> ?t \<and>
             template_matches q ?y)"
    by simp
  note first = template_substitution [OF p, of "''ABC123''" ?x]
  note empty = template_substitution [OF p, of "[]" "[]"]
  note missing = template_substitution [OF t, of "[]" ?y]
  from first [THEN conjunct1] ok have 1: "pathIsAllowed ''/v1/booking/flight-orders/ABC123''"
    unfolding s1 by blast
  from empty [THEN conjunct2, THEN conjunct1] have 2: "\<not> pathIsAllowed ''/v1/booking/flight-orders/''"
    unfolding s2 by blast
  from first [THEN conjunct2, THEN conjunct2, THEN conjunct2, THEN conjunct2, THEN conjunct2] x1 x2
  have 3: "\<not> pathIsAllowed ?x" by blast
  from missing [THEN conjunct2, THEN conjunct2, THEN conjunct2, THEN conjunct2, THEN conjunct1] y1 y2 y3
  have 4: "\<not> pathIsAllowed ?y" by blast
  from p t 1 2 3 y2 4 show ?thesis by (intro conjI)
qed

text \<open>
  Claim C5 as stated fails for a candidate with a missing segment:
  \<^verbatim>\<open>/v1/booking/flight-orders\<close> is the template \<^verbatim>\<open>/v1/booking/flight-orders/:flightOrderId\<close>
  without its last segment, and it is accepted, being an entry of the allowlist itself.
\<close>

theorem missing_segment_counterexample:
  "''/v1/booking/flight-orders/:flightOrderId'' \<in> set ALLOWED_PATHS \<and>
   str_includes ''/v1/booking/flight-orders/:flightOrderId'' CHR '':'' \<and>
   split_slash ''/v1/booking/flight-orders'' =
     butlast (split_slash ''/v1/booking/flight-orders/:flightOrderId'') \<and>
   pathIsAllowed ''/v1/booking/flight-orders''"
  by (simp add: pathIsAllowed_def ALLOWED_PATHS_def str_includes_def)

text \<open>
  Claim C6, as amended. \<^verbatim>\<open>pathIsAllowed\<close> accepts every entry of the allowlist, and refuses
  every string that is neither an entry nor matched by a template; in particular the
  empty string, and every proper prefix of an entry without placeholder that is not an
  entry itself.
\<close>

theorem exact_or_template_only:
  "(s \<in> set ALLOWED_PATHS \<longrightarrow> pathIsAllowed s) \<and>
   (s \<notin> set ALLOWED_PATHS \<and>
    \<not> (\<exists>p \<in> set ALLOWED_PATHS. str_includes p CHR '':'' \<and> template_matches p s) \<longrightarrow>
      \<not> pathIsAllowed s) \<and>
   \<not> pathIsAllowed [] \<and>
   (l \<in> set ALLOWED_PATHS \<and> \<not> str_includes l CHR '':'' \<and> strict_prefix s l \<and>
    s \<notin> set ALLOWED_PATHS \<longrightarrow> \<not> pathIsAllowed s)"
proof -
  have e: "\<not> pathIsAllowed []"
    unfolding pathIsAllowed_cases by (simp add: ALLOWED_PATHS_def)
  have pre: "\<not> pathIsAllowed s"
    if l: "l \<in> set ALLOWED_PATHS" "\<not> str_includes l CHR '':''" and sp: "strict_prefix s l"
      and s: "s \<notin> set ALLOWED_PATHS"
  proof
    assume "pathIsAllowed s"
    with s obtain x where x: "s = ''/v1/booking/flight-orders/'' @ x \<or>
      s = ''/v1/ordering/transfer-orders/'' @ x @ ''/transfers/cancellation'' \<or>
      s = ''/v3/shopping/hotel-offers/'' @ x"
      unfolding pathIsAllowed_cases by blast
    from sp obtain z where z: "l = s @ z" by (auto simp add: strict_prefix_def prefix_def)
    from x z have "l = ''/v1/booking/flight-orders/'' @ (x @ z) \<or>
      l = ''/v1/ordering/transfer-orders/'' @ (x @ ''/transfers/cancellation'' @ z) \<or>
      l = ''/v3/shopping/hotel-offers/'' @ (x @ z)" by auto
    then have "str_includes l CHR '':''"
      using allowed_under_template_prefix [OF l(1), of "x @ z"]
        allowed_under_template_prefix [OF l(1), of "x @ ''/transfers/cancellation'' @ z"] by blast
    with l(2) show False by simp
  qed
  from e pre show ?thesis unfolding pathIsAllowed_iff by blast
qed

theorem exact_or_template_only_witness:
  "pathIsAllowed ''/v2/shopping/flight-offers'' \<and>
   \<not> pathIsAllowed ''/v1/unknown/endpoint'' \<and>
   ''/v1/shopping/flight-offers/pricing'' \<in> set ALLOWED_PATHS \<and>
   strict_prefix ''/v1/shopping/flight-offers'' ''/v1/shopping/flight-offers/pricing'' \<and>
   \<not> pathIsAllowed ''/v1/shopping/flight-offers''"
proof -
  have m: "''/v2/shopping/flight-offers'' \<in> set ALLOWED_PATHS"
    by (simp add: ALLOWED_PATHS_def)
  have u1: "''/v1/unknown/endpoint'' \<notin> set ALLOWED_PATHS"
    by (simp add: ALLOWED_PATHS_def)
  have "\<not> (\<exists>p \<in> set (filter (\<lambda>p. str_includes p CHR '':'') ALLOWED_PATHS).
              template_matches p ''/v1/unknown/endpoint'')"
    unfolding templates by (simp add: template_matches_def seg_match_def startsWith_def)
  then have u2: "\<not> (\<exists>p \<in> set ALLOWED_PATHS. str_includes p CHR '':'' \<and>
              template_matches p ''/v1/unknown/endpoint'')"
    by simp
  have l: "''/v1/shopping/flight-offers/pricing'' \<in> set ALLOWED_PATHS"
    "\<not> str_includes ''/v1/shopping/flight-offers/pricing'' CHR '':''"
    "strict_prefix ''/v1/shopping/flight-offers'' ''/v1/shopping/flight-offers/pricing''"
    "''/v1/shopping/flight-offers'' \<notin> set ALLOWED_PATHS"
    by (simp_all add: ALLOWED_PATHS_def str_includes_def)
  from exact_or_template_only [of "''/v2/shopping/flight-offers''" "[]"]
    exact_or_template_only [of "''/v1/unknown/endpoint''" "[]"]
    exact_or_template_only [of "''/v1/shopping/flight-offers''" "''/v1/shopping/flight-offers/pricing''"]
    m u1 u2 l
  show ?thesis by blast
qed

text \<open>
  Claim C6 as stated fails for a proper prefix that is an entry of its own:
  \<^verbatim>\<open>/v2/shopping/flight-offers\<close> is a proper prefix of the entry
  \<^verbatim>\<open>/v2/shopping/flight-offers/prediction\<close> and is accepted.
\<close>

theorem proper_prefix_counterexample:
  "''/v2/shopping/flight-offers/prediction'' \<in> set ALLOWED_PATHS \<and>
   \<not> str_includes ''/v2/shopping/flight-offers/prediction'' CHR '':'' \<and>
   strict_prefix ''/v2/shopping/flight-offers'' ''/v2/shopping/flight-offers/prediction'' \<and>
   pathIsAllowed ''/v2/shopping/flight-offers''"
  by (simp add: pathIsAllowed_def ALLOWED_PATHS_def str_includes_def)

section \<open>Properties of the token exchange, the forwarder and the validation\<close>

lemma getAmadeusToken_log:
  "snd (getAmadeusToken w lg key secret service tmo) = lg @ [token_request w key secret service tmo]"
  by (simp add: getAmadeusToken_def axios_request_def split: sum.splits option.splits)

lemma getAmadeusToken_pair:
  "getAmadeusToken w lg key secret service tmo =
   (fst (getAmadeusToken w lg key secret service tmo), lg @ [token_request w key secret service tmo])"
  by (metis getAmadeusToken_log prod.collapse)

lemma settle_all [simp]: "settle (Some (\<lambda>s. True)) (Completed r) = Inr r"
  by simp

lemma getAmadeusToken_error_shape:
  "fst (getAmadeusToken w lg key secret service tmo) = Inl e \<Longrightarrow>
   \<exists>d. e = new_Error (''Amadeus auth error: '' @ d)"
  by (auto simp add: getAmadeusToken_def axios_request_def auth_error_def
      split: sum.splits option.splits if_splits)

lemma forwardAmadeus_token_failure:
  assumes "fst (getAmadeusToken w lg (apiKey a) (apiSecret a) (serviceName a) (Some (timeoutMs a))) = Inl e"
  shows "forwardAmadeus w lg a =
         (Inl e, lg @ [token_request w (apiKey a) (apiSecret a) (serviceName a) (Some (timeoutMs a))])"
proof -
  have "getAmadeusToken w lg (apiKey a) (apiSecret a) (serviceName a) (Some (timeoutMs a)) =
        (Inl e, lg @ [token_request w (apiKey a) (apiSecret a) (serviceName a) (Some (timeoutMs a))])"
    using assms getAmadeusToken_pair [of w lg "apiKey a" "apiSecret a" "serviceName a" "Some (timeoutMs a)"]
    by simp
  then show ?thesis by (simp add: forwardAmadeus_def)
qed

lemma forwardAmadeus_token_ok:
  assumes "fst (getAmadeusToken w lg (apiKey a) (apiSecret a) (serviceName a) (Some (timeoutMs a))) = Inr token"
  shows "forwardAmadeus w lg a =
         (case settle (Some (\<lambda>s. True))
                 (net w (Suc (length lg)) (upstream_request w a token)) of
            Inl e \<Rightarrow> Inl e
          | Inr response \<Rightarrow> Inr \<lparr>payload = text_of w (rs_data response),
                                  fr_isError = (400 \<le> rs_status response)\<rparr>,
          lg @ [token_request w (apiKey a) (apiSecret a) (serviceName a) (Some (timeoutMs a)),
                upstream_request w a token])"
proof -
  have "getAmadeusToken w lg (apiKey a) (apiSecret a) (serviceName a) (Some (timeoutMs a)) =
        (Inr token, lg @ [token_request w (apiKey a) (apiSecret a) (serviceName a) (Some (timeoutMs a))])"
    using assms getAmadeusToken_pair [of w lg "apiKey a" "apiSecret a" "serviceName a" "Some (timeoutMs a)"]
    by simp
  then show ?thesis
    by (simp add: forwardAmadeus_def axios_request_def upstream_request_def split: sum.splits)
qed

lemma amadeus_request_token_failure:
  assumes "RequestSchema_parse input = Inr a"
    and "fst (getAmadeusToken w [] (apiKey a) (apiSecret a) (serviceName a) (Some (timeoutMs a))) = Inl e"
  shows "amadeus_request w input =
         (Inl (Thrown e), [token_request w (apiKey a) (apiSecret a) (serviceName a) (Some (timeoutMs a))])"
proof -
  have "getAmadeusToken w [] (apiKey a) (apiSecret a) (serviceName a) (Some (timeoutMs a)) =
        (Inl e, [token_request w (apiKey a) (apiSecret a) (serviceName a) (Some (timeoutMs a))])"
    using assms(2) getAmadeusToken_pair [of w "[]" "apiKey a" "apiSecret a" "serviceName a" "Some (timeoutMs a)"]
    by simp
  then show ?thesis using assms(1) by (simp add: amadeus_request_def)
qed

lemma amadeus_request_token_ok:
  assumes "RequestSchema_parse input = Inr a"
    and "fst (getAmadeusToken w [] (apiKey a) (apiSecret a) (serviceName a) (Some (timeoutMs a))) = Inr token"
  shows "amadeus_request w input =
         (case settle (Some (\<lambda>s. True)) (net w (Suc 0) (upstream_request w a token)) of
            Inl e \<Rightarrow> Inr (forwarding_error w e)
          | Inr response \<Rightarrow> Inr \<lparr>content = [TextContent (text_of w (rs_data response))],
                                  isError = (400 \<le> rs_status response)\<rparr>,
          [token_request w (apiKey a) (apiSecret a) (serviceName a) (Some (timeoutMs a)),
           upstream_request w a token])"
proof -
  have "getAmadeusToken w [] (apiKey a) (apiSecret a) (serviceName a) (Some (timeoutMs a)) =
        (Inr token, [token_request w (apiKey a) (apiSecret a) (serviceName a) (Some (timeoutMs a))])"
    using assms(2) getAmadeusToken_pair [of w "[]" "apiKey a" "apiSecret a" "serviceName a" "Some (timeoutMs a)"]
    by simp
  then show ?thesis using assms(1)
    by (simp add: amadeus_request_def axios_request_def upstream_request_def split: sum.splits)
qed

lemma flight_offers_args_fields:
  "apiKey (flight_offers_args b) = apiKey b"
  "apiSecret (flight_offers_args b) = apiSecret b"
  "serviceName (flight_offers_args b) = serviceName b"
  "timeoutMs (flight_offers_args b) = timeoutMs b"
  "headers (flight_offers_args b) = headers b"
  by (simp_all add: flight_offers_args_def base_args.extend_def)

subsection \<open>The sample worlds\<close>

lemmas token_defs = getAmadeusToken_def axios_request_def token_request_def validate_default_def
  auth_error_def auth_detail_def new_Error_def

lemmas sample_defs = sample_world_def sample_stringify_def token_ok_def token_missing_def
  token_denied_def main_ok_def main_not_found_def host_unreachable_def sample_input_def
  sample_args_def

lemma char_eq_char_of_iff: "c = char_of (n::nat) \<longleftrightarrow> take_bit 8 n = of_char c"
  using char_of_eq_iff [of n c] by auto

lemma parse_sample: "RequestSchema_parse sample_input = Inr sample_args"
  by code_simp

lemma normalize_sample:
  "normalizeBase sample_input = Inr (base_args.truncate sample_args)"
  by code_simp

lemma token_sample_ok:
  "fst (getAmadeusToken (sample_world token_ok r) [] ''k'' ''s'' ''test'' (Some 15000)) = Inr (JStr ''abc'')"
  by (simp add: token_defs sample_defs)

lemma token_sample_denied:
  \<open>fst (getAmadeusToken (sample_world token_denied r) [] ''k'' ''s'' ''test'' (Some 15000)) =
   Inl (new_Error ''Amadeus auth error: {"error":"invalid_client"}'')\<close>
  by (simp add: token_defs sample_defs dec.simps)

lemma sample_flight_offers_args:
  "flight_offers_args (base_args.truncate sample_args) = sample_args"
  by (simp add: flight_offers_args_def sample_args_def base_args.truncate_def base_args.extend_def)

subsection \<open>Header validation and merge\<close>

lemma lower_keys_fold:
  "fst ` set (foldl (\<lambda>lower (k, v). AList.update (toLowerCase k) v lower) acc props) =
   fst ` set acc \<union> toLowerCase ` fst ` set props"
proof (induction props arbitrary: acc)
  case Nil
  show ?case by simp
next
  case (Cons p props)
  obtain k v where p: "p = (k, v)" by (cases p)
  have "fst ` set (foldl (\<lambda>lower (k, v). AList.update (toLowerCase k) v lower) acc (p # props)) =
        fst ` set (AList.update (toLowerCase k) v acc) \<union> toLowerCase ` fst ` set props"
    by (simp add: Cons.IH p)
  also have "\<dots> = fst ` set acc \<union> toLowerCase ` fst ` set (p # props)"
    unfolding AList.dom_update p by auto
  finally show ?case .
qed

lemma lower_keys_dom: "fst ` set (lower_keys props) = toLowerCase ` fst ` set props"
  by (simp add: lower_keys_def lower_keys_fold)

lemma merged_Authorization:
  "map_of (merge_headers w hdrs token ctype) ''Authorization'' =
   Some (JStr (''Bearer '' @ template_str w token))"
  by (simp add: merge_headers_def AList.update_conv')

lemma merged_Content_Type:
  "map_of (merge_headers w hdrs token ctype) ''Content-Type'' = Some (JStr ctype)"
  by (simp add: merge_headers_def AList.update_conv')

lemma merged_keys:
  "fst ` set (merge_headers w hdrs token ctype) =
   {''Authorization'', ''Content-Type''} \<union> fst ` set (own_props hdrs)"
  by (auto simp add: merge_headers_def AList.dom_update)

lemma lower_Content_Type: "toLowerCase ''Content-Type'' \<noteq> ''authorization''"
  by (simp add: toLowerCase_def lower_char_def char_of_eq_iff)

lemma refused_Nil_iff: "refused checks = [] \<longleftrightarrow> list_all snd checks"
  by (induction checks) (auto simp add: refused_def)

lemma parse_rejects_authorization:
  assumes "map_of input ''headers'' = Some (JObj hs)"
    and "\<exists>k \<in> fst ` set hs. toLowerCase k = ''authorization''"
  shows "\<exists>issues. RequestSchema_parse input = Inl (ZodError issues)"
proof -
  from assms(2) have "''authorization'' \<in> fst ` set (lower_keys hs)"
    unfolding lower_keys_dom by force
  then have "z_headers (map_of input ''headers'') = None"
    by (simp add: assms(1) z_headers_def headers_refine_def)
  then show ?thesis
    by (simp add: RequestSchema_parse_def refused_Nil_iff Let_def)
qed

lemma parse_headers_clean:
  assumes "RequestSchema_parse input = Inr a"
  shows "\<forall>k \<in> fst ` set (own_props (headers a)). toLowerCase k \<noteq> ''authorization''"
proof -
  from assms have z: "z_headers (map_of input ''headers'') \<noteq> None"
    and h: "headers a = the (z_headers (map_of input ''headers''))"
    by (auto simp add: RequestSchema_parse_def refused_Nil_iff Let_def split: if_splits)
  from z have "''authorization'' \<notin> fst ` set (lower_keys (own_props (headers a)))"
    unfolding h
    by (auto simp add: z_headers_def headers_refine_def split: option.splits json.splits if_splits)
  then show ?thesis unfolding lower_keys_dom by force
qed

lemma normalizeBase_rejects_authorization:
  assumes "map_of input ''headers'' = Some (JObj hs)"
    and "\<exists>k \<in> fst ` set hs. toLowerCase k = ''authorization''"
  shows "\<exists>e. normalizeBase input = Inl e"
proof -
  from assms(2) have "''authorization'' \<in> fst ` set (lower_keys hs)"
    unfolding lower_keys_dom by force
  then have "assertNoAuthHeader (JObj hs) =
     Inl (new_Error ''Do not send Authorization; it will be set by the server.'')"
    by (simp add: assertNoAuthHeader_def)
  then show ?thesis
    by (simp add: normalizeBase_def assms(1) is_object_def Let_def split: sum.splits)
qed

lemma normalizeBase_headers_clean:
  assumes "normalizeBase input = Inr a"
  shows "\<forall>k \<in> fst ` set (own_props (headers a)). toLowerCase k \<noteq> ''authorization''"
proof -
  from assms have "assertNoAuthHeader (headers a) = Inr ()"
    by (auto simp add: normalizeBase_def Let_def split: sum.splits if_splits)
  then have "''authorization'' \<notin> fst ` set (lower_keys (own_props (headers a)))"
    by (cases "headers a") (auto simp add: assertNoAuthHeader_def lower_keys_def split: if_splits)
  then show ?thesis unfolding lower_keys_dom by force
qed

subsection \<open>\<open>normalizeBase\<close>\<close>

lemma ensureString_Inl:
  "ensureString v name = Inl e \<Longrightarrow> e = new_Error (name @ '' must be a non-empty string'')"
  by (auto simp add: ensureString_def split: option.splits json.splits if_splits)

lemma assertNoAuthHeader_Inl:
  "assertNoAuthHeader h = Inl e \<Longrightarrow>
   e = new_Error ''Do not send Authorization; it will be set by the server.''"
  by (auto simp add: assertNoAuthHeader_def split: if_splits)

lemma normalizeBase_checked:
  assumes "ensureString (map_of input ''serviceName'') ''serviceName'' = Inr sn"
    and "ensureString (map_of input ''apiKey'') ''apiKey'' = Inr key"
    and "ensureString (map_of input ''apiSecret'') ''apiSecret'' = Inr secret"
    and "assertNoAuthHeader (if is_object (map_of input ''headers'')
           then the (map_of input ''headers'') else JObj []) = Inr ()"
  shows "normalizeBase input =
     (if \<not> (0 < (if isInteger (map_of input ''timeoutMs'') then int_value (map_of input ''timeoutMs'') else 15000) \<and>
             (if isInteger (map_of input ''timeoutMs'') then int_value (map_of input ''timeoutMs'') else 15000) \<le> 60000)
      then Inl (new_Error ''timeoutMs must be a positive integer up to 60000'')
      else Inr \<lparr>serviceName = sn, apiKey = key, apiSecret = secret,
             query = (if is_object (map_of input ''query'') then the (map_of input ''query'') else JObj []),
             body = map_of input ''body'',
             headers = (if is_object (map_of input ''headers'') then the (map_of input ''headers'') else JObj []),
             contentType = (case map_of input ''contentType'' of Some (JStr s) \<Rightarrow> s | _ \<Rightarrow> ''application/json''),
             timeoutMs = (if isInteger (map_of input ''timeoutMs'') then int_value (map_of input ''timeoutMs'') else 15000)\<rparr>)"
  using assms by (simp add: normalizeBase_def Let_def)

lemma normalizeBase_unchecked:
  assumes "\<not> (\<exists>sn key secret.
      ensureString (map_of input ''serviceName'') ''serviceName'' = Inr sn \<and>
      ensureString (map_of input ''apiKey'') ''apiKey'' = Inr key \<and>
      ensureString (map_of input ''apiSecret'') ''apiSecret'' = Inr secret \<and>
      assertNoAuthHeader (if is_object (map_of input ''headers'')
           then the (map_of input ''headers'') else JObj []) = Inr ())"
  shows "\<exists>e. normalizeBase input = Inl e \<and>
             e \<noteq> new_Error ''timeoutMs must be a positive integer up to 60000''"
proof (cases "ensureString (map_of input ''serviceName'') ''serviceName''")
  case (Inl e)
  with ensureString_Inl [OF Inl] show ?thesis
    by (simp add: normalizeBase_def new_Error_def)
next
  case sn: (Inr sn)
  show ?thesis
  proof (cases "ensureString (map_of input ''apiKey'') ''apiKey''")
    case (Inl e)
    with sn ensureString_Inl [OF Inl] show ?thesis
      by (simp add: normalizeBase_def new_Error_def)
  next
    case key: (Inr key)
    show ?thesis
    proof (cases "ensureString (map_of input ''apiSecret'') ''apiSecret''")
      case (Inl e)
      with sn key ensureString_Inl [OF Inl] show ?thesis
        by (simp add: normalizeBase_def new_Error_def)
    next
      case secret: (Inr secret)
      show ?thesis
      proof (cases "assertNoAuthHeader (if is_object (map_of input ''headers'')
           then the (map_of input ''headers'') else JObj [])")
        case (Inl e)
        with sn key secret assertNoAuthHeader_Inl [OF Inl] show ?thesis
          by (simp add: normalizeBase_def new_Error_def Let_def)
      next
        case (Inr u)
        with sn key secret assms show ?thesis by simp
      qed
    qed
  qed
qed

lemma isInteger_simps:
  "isInteger (Some (JNum r)) \<longleftrightarrow> r \<in> \<int>"
  "isInteger (Some (JStr s)) = False"
  "isInteger None = False"
proof -
  have "rat_of_int \<lfloor>r\<rfloor> = r \<longleftrightarrow> r \<in> \<int>"
    by (metis Ints_of_int Ints_cases floor_of_int)
  then show "isInteger (Some (JNum r)) \<longleftrightarrow> r \<in> \<int>"
    by (simp add: isInteger_def)
qed (simp_all add: isInteger_def)

subsection \<open>The handlers\<close>

lemma flight_offers_handler_token_failure:
  assumes "normalizeBase input = Inr b"
    and "fst (getAmadeusToken w [] (apiKey b) (apiSecret b) (serviceName b) (Some (timeoutMs b))) = Inl e"
  shows "flight_offers_handler w input =
         (Inl (Thrown e), [token_request w (apiKey b) (apiSecret b) (serviceName b) (Some (timeoutMs b))])"
proof -
  from assms(2) have "fst (getAmadeusToken w [] (apiKey (flight_offers_args b))
      (apiSecret (flight_offers_args b)) (serviceName (flight_offers_args b))
      (Some (timeoutMs (flight_offers_args b)))) = Inl e"
    by (simp add: flight_offers_args_fields)
  from forwardAmadeus_token_failure [OF this] show ?thesis
    by (simp add: flight_offers_handler_def assms(1) flight_offers_args_fields)
qed

lemma flight_offers_handler_token_ok:
  assumes "normalizeBase input = Inr b"
    and "fst (getAmadeusToken w [] (apiKey b) (apiSecret b) (serviceName b) (Some (timeoutMs b))) = Inr token"
  shows "fst (flight_offers_handler w input) =
         (case net w (Suc 0) (upstream_request w (flight_offers_args b) token) of
            Failed e \<Rightarrow> Inl (Thrown e)
          | Completed response \<Rightarrow>
              Inr \<lparr>content = [TextContent (text_of w (rs_data response))],
                   isError = (400 \<le> rs_status response)\<rparr>)"
proof -
  from assms(2) have "fst (getAmadeusToken w [] (apiKey (flight_offers_args b))
      (apiSecret (flight_offers_args b)) (serviceName (flight_offers_args b))
      (Some (timeoutMs (flight_offers_args b)))) = Inr token"
    by (simp add: flight_offers_args_fields)
  from forwardAmadeus_token_ok [OF this] show ?thesis
    by (cases "net w (Suc 0) (upstream_request w (flight_offers_args b) token)")
      (simp_all add: flight_offers_handler_def assms(1))
qed

lemma handler_results_are_text:
  "fst (amadeus_request w input) = Inr r \<Longrightarrow> \<exists>t c. r = \<lparr>content = [TextContent t], isError = c\<rparr>"
  "fst (flight_offers_handler w input) = Inr r \<Longrightarrow> \<exists>t c. r = \<lparr>content = [TextContent t], isError = c\<rparr>"
  by (auto simp add: amadeus_request_def flight_offers_handler_def forwarding_error_def Let_def
      split: sum.splits prod.splits)

lemma tool_call_fst:
  "fst (tool_call w handler input) =
   (case fst (handler w input) of
      Inr result \<Rightarrow> result
    | Inl error \<Rightarrow> \<lparr>content = [TextContent (exn_message w error)], isError = True\<rparr>)"
  by (cases "handler w input"; cases "fst (handler w input)") (simp_all add: tool_call_def)

section \<open>Claims about the token exchange, the forwarder and the handlers\<close>

text \<open>
  Claim C8. When the token endpoint answers with a status from 200 to 299 (the statuses
  on which axios resolves) and the body has a truthy \<^verbatim>\<open>access_token\<close> property, in
  particular a non-empty string, \<^verbatim>\<open>getAmadeusToken\<close> returns that value. When the status
  is in that range and the property is missing or falsy (the empty string), it throws
  the error "Amadeus auth error: No access_token in Amadeus response". When the status
  is outside that range, it throws "Amadeus auth error: " followed by the body of the
  response (verbatim when it is a string, serialised otherwise), or by the message of
  the axios error when the body is null. When the request fails without a response, it
  throws "Amadeus auth error: " followed by the message of the failure.
\<close>

theorem getAmadeusToken_outcomes:
  "(net w (length lg) (token_request w key secret service tmo) = Completed r \<longrightarrow>
      (validate_default (rs_status r) \<and> get_prop (rs_data r) ''access_token'' = Some token \<and>
       truthy token \<longrightarrow>
         fst (getAmadeusToken w lg key secret service tmo) = Inr token) \<and>
      (validate_default (rs_status r) \<and> \<not> truthy_opt (get_prop (rs_data r) ''access_token'') \<longrightarrow>
         fst (getAmadeusToken w lg key secret service tmo) =
           Inl (new_Error ''Amadeus auth error: No access_token in Amadeus response'')) \<and>
      (\<not> validate_default (rs_status r) \<longrightarrow>
         fst (getAmadeusToken w lg key secret service tmo) =
           Inl (new_Error (''Amadeus auth error: '' @
             (case rs_data r of
                JNull \<Rightarrow> ''Request failed with status code '' @ dec (rs_status r)
              | JStr s \<Rightarrow> s
              | d \<Rightarrow> JSON_stringify w d))))) \<and>
   (net w (length lg) (token_request w key secret service tmo) = Failed (JsError (Some m) None) \<longrightarrow>
      fst (getAmadeusToken w lg key secret service tmo) =
        Inl (new_Error (''Amadeus auth error: '' @ m)))"
proof -
  have rq: "rq_validateStatus (token_request w key secret service tmo) = None"
    by (simp add: token_request_def)
  have obj: "get_prop d ''access_token'' = Some token \<Longrightarrow> truthy d" for d
    by (cases d) auto
  have a: "fst (getAmadeusToken w lg key secret service tmo) = Inr token"
    if "net w (length lg) (token_request w key secret service tmo) = Completed r"
      "validate_default (rs_status r)" "get_prop (rs_data r) ''access_token'' = Some token"
      "truthy token"
    using that obj [of "rs_data r"] by (simp add: getAmadeusToken_def axios_request_def rq)
  have b: "fst (getAmadeusToken w lg key secret service tmo) =
           Inl (new_Error ''Amadeus auth error: No access_token in Amadeus response'')"
    if "net w (length lg) (token_request w key secret service tmo) = Completed r"
      "validate_default (rs_status r)" "\<not> truthy_opt (get_prop (rs_data r) ''access_token'')"
    using that
    by (simp add: getAmadeusToken_def axios_request_def rq auth_error_def auth_detail_def
        new_Error_def)
  have c: "fst (getAmadeusToken w lg key secret service tmo) =
           Inl (new_Error (''Amadeus auth error: '' @
             (case rs_data r of
                JNull \<Rightarrow> ''Request failed with status code '' @ dec (rs_status r)
              | JStr s \<Rightarrow> s
              | d \<Rightarrow> JSON_stringify w d)))"
    if "net w (length lg) (token_request w key secret service tmo) = Completed r"
      "\<not> validate_default (rs_status r)"
    using that
    by (cases "rs_data r")
      (simp_all add: getAmadeusToken_def axios_request_def rq auth_error_def auth_detail_def
        new_Error_def)
  have d: "fst (getAmadeusToken w lg key secret service tmo) =
        Inl (new_Error (''Amadeus auth error: '' @ m))"
    if "net w (length lg) (token_request w key secret service tmo) = Failed (JsError (Some m) None)"
    using that
    by (simp add: getAmadeusToken_def axios_request_def rq auth_error_def auth_detail_def
        new_Error_def)
  from a b c d show ?thesis by blast
qed

theorem getAmadeusToken_outcomes_witness:
  \<open>fst (getAmadeusToken (sample_world token_ok main_ok) [] ''k'' ''s'' ''test'' None) =
     Inr (JStr ''abc'') \<and>
   fst (getAmadeusToken (sample_world token_missing main_ok) [] ''k'' ''s'' ''test'' None) =
     Inl (new_Error ''Amadeus auth error: No access_token in Amadeus response'') \<and>
   fst (getAmadeusToken (sample_world token_denied main_ok) [] ''k'' ''s'' ''test'' None) =
     Inl (new_Error ''Amadeus auth error: {"error":"invalid_client"}'') \<and>
   fst (getAmadeusToken (sample_world host_unreachable main_ok) [] ''k'' ''s'' ''test'' None) =
     Inl (new_Error ''Amadeus auth error: connect ECONNREFUSED'')\<close>
proof -
  let ?rq = "\<lambda>w. token_request w ''k'' ''s'' ''test'' None"
  have n1: "net (sample_world token_ok main_ok) (length []) (?rq (sample_world token_ok main_ok)) =
            Completed \<lparr>rs_status = 200, rs_data = JObj [(''access_token'', JStr ''abc'')]\<rparr>"
    by (simp add: sample_world_def token_ok_def)
  have n2: "net (sample_world token_missing main_ok) (length []) (?rq (sample_world token_missing main_ok)) =
            Completed \<lparr>rs_status = 200, rs_data = JObj [(''token_type'', JStr ''Bearer'')]\<rparr>"
    by (simp add: sample_world_def token_missing_def)
  have n3: "net (sample_world token_denied main_ok) (length []) (?rq (sample_world token_denied main_ok)) =
            Completed \<lparr>rs_status = 401, rs_data = JObj [(''error'', JStr ''invalid_client'')]\<rparr>"
    by (simp add: sample_world_def token_denied_def)
  have n4: "net (sample_world host_unreachable main_ok) (length []) (?rq (sample_world host_unreachable main_ok)) =
            Failed (JsError (Some ''connect ECONNREFUSED'') None)"
    by (simp add: sample_world_def host_unreachable_def)
  have s: "JSON_stringify (sample_world token_denied main_ok) = sample_stringify"
    by (simp add: sample_world_def)
  show ?thesis
    using getAmadeusToken_outcomes [of "sample_world token_ok main_ok" "[]" "''k''" "''s''" "''test''" None
        "\<lparr>rs_status = 200, rs_data = JObj [(''access_token'', JStr ''abc'')]\<rparr>" "JStr ''abc''" "[]"]
      getAmadeusToken_outcomes [of "sample_world token_missing main_ok" "[]" "''k''" "''s''" "''test''" None
        "\<lparr>rs_status = 200, rs_data = JObj [(''token_type'', JStr ''Bearer'')]\<rparr>" JNull "[]"]
      getAmadeusToken_outcomes [of "sample_world token_denied main_ok" "[]" "''k''" "''s''" "''test''" None
        "\<lparr>rs_status = 401, rs_data = JObj [(''error'', JStr ''invalid_client'')]\<rparr>" JNull "[]"]
      getAmadeusToken_outcomes [of "sample_world host_unreachable main_ok" "[]" "''k''" "''s''" "''test''" None
        "\<lparr>rs_status = 200, rs_data = JNull\<rparr>" JNull "''connect ECONNREFUSED''"]
    unfolding n1 n2 n3 n4 s
    by (simp add: validate_default_def sample_stringify_def)
qed

text \<open>
  Claim C9. The first request that \<^verbatim>\<open>forwardAmadeus\<close> issues is the token exchange. When
  \<^verbatim>\<open>getAmadeusToken\<close> fails, \<^verbatim>\<open>forwardAmadeus\<close> fails with the same error and the token
  exchange is the only request issued; the same holds for the handler of
  \<^verbatim>\<open>amadeus.request\<close> on an input that passes the schema.
\<close>

theorem token_failure_short_circuits:
  "(\<exists>rest. snd (forwardAmadeus w lg a) =
      lg @ token_request w (apiKey a) (apiSecret a) (serviceName a) (Some (timeoutMs a)) # rest) \<and>
   (fst (getAmadeusToken w lg (apiKey a) (apiSecret a) (serviceName a) (Some (timeoutMs a))) = Inl e \<longrightarrow>
      forwardAmadeus w lg a =
        (Inl e, lg @ [token_request w (apiKey a) (apiSecret a) (serviceName a) (Some (timeoutMs a))])) \<and>
   (RequestSchema_parse input = Inr a \<and>
    fst (getAmadeusToken w [] (apiKey a) (apiSecret a) (serviceName a) (Some (timeoutMs a))) = Inl e \<longrightarrow>
      amadeus_request w input =
        (Inl (Thrown e), [token_request w (apiKey a) (apiSecret a) (serviceName a) (Some (timeoutMs a))]))"
proof -
  let ?t = "getAmadeusToken w lg (apiKey a) (apiSecret a) (serviceName a) (Some (timeoutMs a))"
  have first: "\<exists>rest. snd (forwardAmadeus w lg a) =
      lg @ token_request w (apiKey a) (apiSecret a) (serviceName a) (Some (timeoutMs a)) # rest"
  proof (cases "fst ?t")
    case (Inl e')
    then show ?thesis by (simp add: forwardAmadeus_token_failure)
  next
    case (Inr token)
    then show ?thesis by (simp add: forwardAmadeus_token_ok)
  qed
  from first forwardAmadeus_token_failure [of w lg a e] amadeus_request_token_failure [of input a w e]
  show ?thesis by blast
qed

theorem token_failure_short_circuits_witness:
  \<open>forwardAmadeus (sample_world token_denied main_ok) [] sample_args =
     (Inl (new_Error ''Amadeus auth error: {"error":"invalid_client"}''),
      [token_request (sample_world token_denied main_ok) ''k'' ''s'' ''test'' (Some 15000)]) \<and>
   amadeus_request (sample_world token_denied main_ok) sample_input =
     (Inl (Thrown (new_Error ''Amadeus auth error: {"error":"invalid_client"}'')),
      [token_request (sample_world token_denied main_ok) ''k'' ''s'' ''test'' (Some 15000)])\<close>
proof -
  have a: "apiKey sample_args = ''k''" "apiSecret sample_args = ''s''"
    "serviceName sample_args = ''test''" "timeoutMs sample_args = 15000"
    by (simp_all add: sample_args_def)
  from token_failure_short_circuits [of "sample_world token_denied main_ok" "[]" sample_args
      \<open>new_Error ''Amadeus auth error: {"error":"invalid_client"}''\<close> sample_input]
    parse_sample token_sample_denied [of main_ok]
  show ?thesis unfolding a by simp
qed

text \<open>
  Claim C7. When the token has been obtained and the upstream call completes with a
  response of any status, \<^verbatim>\<open>forwardAmadeus\<close> returns: the payload is the body itself when
  the body is a string and its JSON serialisation otherwise, and \<open>isError\<close> holds exactly
  when the status is at least 400. The handler of \<^verbatim>\<open>amadeus.request\<close> returns the same
  payload and flag.
\<close>

theorem completed_response_is_normalised:
  assumes "fst (getAmadeusToken w lg (apiKey a) (apiSecret a) (serviceName a) (Some (timeoutMs a))) =
             Inr token"
    and "net w (Suc (length lg)) (upstream_request w a token) = Completed r"
  shows "fst (forwardAmadeus w lg a) =
           Inr \<lparr>payload = (case rs_data r of JStr s \<Rightarrow> s | d \<Rightarrow> JSON_stringify w d),
                fr_isError = (400 \<le> rs_status r)\<rparr> \<and>
         (lg = [] \<and> RequestSchema_parse input = Inr a \<longrightarrow>
            fst (amadeus_request w input) =
              Inr \<lparr>content = [TextContent (case rs_data r of JStr s \<Rightarrow> s | d \<Rightarrow> JSON_stringify w d)],
                   isError = (400 \<le> rs_status r)\<rparr>)"
proof -
  have t: "text_of w d = (case d of JStr s \<Rightarrow> s | d \<Rightarrow> JSON_stringify w d)" for d
    by (cases d) simp_all
  have f: "fst (forwardAmadeus w lg a) =
           Inr \<lparr>payload = (case rs_data r of JStr s \<Rightarrow> s | d \<Rightarrow> JSON_stringify w d),
                fr_isError = (400 \<le> rs_status r)\<rparr>"
    using assms by (simp add: forwardAmadeus_token_ok t)
  have h: "fst (amadeus_request w input) =
              Inr \<lparr>content = [TextContent (case rs_data r of JStr s \<Rightarrow> s | d \<Rightarrow> JSON_stringify w d)],
                   isError = (400 \<le> rs_status r)\<rparr>"
    if "lg = []" "RequestSchema_parse input = Inr a"
    using assms that by (simp add: amadeus_request_token_ok t)
  from f h show ?thesis by blast
qed

theorem completed_response_is_normalised_witness:
  \<open>fst (forwardAmadeus (sample_world token_ok main_not_found) [] sample_args) =
     Inr \<lparr>payload = ''{"error":"not found"}'', fr_isError = True\<rparr> \<and>
   fst (amadeus_request (sample_world token_ok main_not_found) sample_input) =
     Inr \<lparr>content = [TextContent ''{"error":"not found"}''], isError = True\<rparr> \<and>
   fst (forwardAmadeus (sample_world token_ok main_ok) [] sample_args) =
     Inr \<lparr>payload = ''{"data":[]}'', fr_isError = False\<rparr>\<close>
proof -
  have a: "apiKey sample_args = ''k''" "apiSecret sample_args = ''s''"
    "serviceName sample_args = ''test''" "timeoutMs sample_args = 15000"
    by (simp_all add: sample_args_def)
  have n1: "net (sample_world token_ok main_not_found) (Suc (length []))
              (upstream_request (sample_world token_ok main_not_found) sample_args (JStr ''abc'')) =
            Completed \<lparr>rs_status = 404, rs_data = JObj [(''error'', JStr ''not found'')]\<rparr>"
    by (simp add: sample_world_def main_not_found_def)
  have n2: "net (sample_world token_ok main_ok) (Suc (length []))
              (upstream_request (sample_world token_ok main_ok) sample_args (JStr ''abc'')) =
            Completed \<lparr>rs_status = 200, rs_data = JObj [(''data'', JArr [])]\<rparr>"
    by (simp add: sample_world_def main_ok_def)
  have s: "JSON_stringify (sample_world token_ok r) = sample_stringify" for r
    by (simp add: sample_world_def)
  from completed_response_is_normalised [of "sample_world token_ok main_not_found" "[]" sample_args
      "JStr ''abc''" _ sample_input, OF _ n1]
    completed_response_is_normalised [of "sample_world token_ok main_ok" "[]" sample_args
      "JStr ''abc''" _ sample_input, OF _ n2]
    token_sample_ok parse_sample
  show ?thesis unfolding a s by (simp add: sample_stringify_def)
qed

text \<open>
  Claim C2 does not hold for \<^verbatim>\<open>forwardAmadeus\<close>. With the token obtained and the upstream
  host refusing the connection, \<^verbatim>\<open>forwardAmadeus\<close> rejects with the axios error, and so
  does the handler of \<^verbatim>\<open>amadeus.v2.shopping.flight-offers\<close> that calls it; on the same
  world the handler of \<^verbatim>\<open>amadeus.request\<close>, which has the \<^verbatim>\<open>try\<close> block, returns the
  text "Forwarding error (500): ..." with \<open>isError\<close> set.
\<close>

theorem transport_failure_propagates:
  \<open>fst (forwardAmadeus (sample_world token_ok host_unreachable) [] sample_args) =
     Inl (JsError (Some ''connect ECONNREFUSED'') None) \<and>
   fst (flight_offers_handler (sample_world token_ok host_unreachable) sample_input) =
     Inl (Thrown (JsError (Some ''connect ECONNREFUSED'') None)) \<and>
   fst (amadeus_request (sample_world token_ok host_unreachable) sample_input) =
     Inr \<lparr>content = [TextContent ''Forwarding error (500): {"error":"connect ECONNREFUSED"}''],
          isError = True\<rparr>\<close>
proof -
  have a: "apiKey sample_args = ''k''" "apiSecret sample_args = ''s''"
    "serviceName sample_args = ''test''" "timeoutMs sample_args = 15000"
    by (simp_all add: sample_args_def)
  have t: "fst (getAmadeusToken (sample_world token_ok host_unreachable) [] (apiKey sample_args)
      (apiSecret sample_args) (serviceName sample_args) (Some (timeoutMs sample_args))) = Inr (JStr ''abc'')"
    unfolding a by (rule token_sample_ok)
  have n: "net (sample_world token_ok host_unreachable) (Suc n) rq =
           Failed (JsError (Some ''connect ECONNREFUSED'') None)" for n rq
    by (simp add: sample_world_def host_unreachable_def)
  have f: "fst (forwardAmadeus (sample_world token_ok host_unreachable) [] sample_args) =
     Inl (JsError (Some ''connect ECONNREFUSED'') None)"
    by (simp add: forwardAmadeus_token_ok [OF t] n)
  then have h: "fst (flight_offers_handler (sample_world token_ok host_unreachable) sample_input) =
     Inl (Thrown (JsError (Some ''connect ECONNREFUSED'') None))"
    by (cases "forwardAmadeus (sample_world token_ok host_unreachable) [] sample_args")
      (simp add: flight_offers_handler_def normalize_sample sample_flight_offers_args)
  have r: \<open>fst (amadeus_request (sample_world token_ok host_unreachable) sample_input) =
     Inr \<lparr>content = [TextContent ''Forwarding error (500): {"error":"connect ECONNREFUSED"}''],
          isError = True\<rparr>\<close>
    by (simp add: amadeus_request_token_ok [OF parse_sample t] n forwarding_error_def dec.simps char_of_eq_iff)
      (simp add: sample_world_def sample_stringify_def)
  from f h r show ?thesis by blast
qed

theorem transport_failure_propagates_witness:
  "isl (fst (forwardAmadeus (sample_world token_ok host_unreachable) [] sample_args)) \<and>
   isl (fst (flight_offers_handler (sample_world token_ok host_unreachable) sample_input)) \<and>
   \<not> isl (fst (amadeus_request (sample_world token_ok host_unreachable) sample_input))"
  using transport_failure_propagates by simp

text \<open>
  Claim C3. A tool invocation always yields a result that consists of one text item
  and an \<open>isError\<close> flag, for the tool \<^verbatim>\<open>amadeus.request\<close> and for a tool of a fixed path,
  on every input and whatever the network does. The handlers themselves throw when the
  token exchange fails, and \<^verbatim>\<open>forwardAmadeus\<close> throws when the upstream call fails; the
  registration layer turns what a handler throws into a result. When the token exchange
  fails, the text is the message "Amadeus auth error: ..." and \<open>isError\<close> is set. When the
  upstream call fails on the network, \<open>isError\<close> is set and the text is
  "Forwarding error (..." for \<^verbatim>\<open>amadeus.request\<close> and the message of the failure for a tool
  of a fixed path. When the upstream call completes, the text is the body and
  \<open>isError\<close> holds exactly when the status is at least 400.
\<close>

theorem tool_call_returns_result:
  "(\<exists>t c. fst (tool_call w amadeus_request input) = \<lparr>content = [TextContent t], isError = c\<rparr>) \<and>
   (\<exists>t c. fst (tool_call w flight_offers_handler input) =
      \<lparr>content = [TextContent t], isError = c\<rparr>) \<and>
   (RequestSchema_parse input = Inr a \<and>
    fst (getAmadeusToken w [] (apiKey a) (apiSecret a) (serviceName a) (Some (timeoutMs a))) = Inl e \<longrightarrow>
      (\<exists>d. fst (tool_call w amadeus_request input) =
         \<lparr>content = [TextContent (''Amadeus auth error: '' @ d)], isError = True\<rparr>)) \<and>
   (normalizeBase input = Inr b \<and>
    fst (getAmadeusToken w [] (apiKey b) (apiSecret b) (serviceName b) (Some (timeoutMs b))) = Inl e \<longrightarrow>
      (\<exists>d. fst (tool_call w flight_offers_handler input) =
         \<lparr>content = [TextContent (''Amadeus auth error: '' @ d)], isError = True\<rparr>)) \<and>
   (RequestSchema_parse input = Inr a \<and>
    fst (getAmadeusToken w [] (apiKey a) (apiSecret a) (serviceName a) (Some (timeoutMs a))) = Inr token \<and>
    net w (Suc 0) (upstream_request w a token) = Failed f \<longrightarrow>
      (\<exists>t. fst (tool_call w amadeus_request input) =
         \<lparr>content = [TextContent (''Forwarding error ('' @ t)], isError = True\<rparr>)) \<and>
   (normalizeBase input = Inr b \<and>
    fst (getAmadeusToken w [] (apiKey b) (apiSecret b) (serviceName b) (Some (timeoutMs b))) = Inr token \<and>
    net w (Suc 0) (upstream_request w (flight_offers_args b) token) = Failed f \<longrightarrow>
      fst (tool_call w flight_offers_handler input) =
        \<lparr>content = [TextContent (exn_message w (Thrown f))], isError = True\<rparr>) \<and>
   (RequestSchema_parse input = Inr a \<and>
    fst (getAmadeusToken w [] (apiKey a) (apiSecret a) (serviceName a) (Some (timeoutMs a))) = Inr token \<and>
    net w (Suc 0) (upstream_request w a token) = Completed r \<longrightarrow>
      fst (tool_call w amadeus_request input) =
        \<lparr>content = [TextContent (text_of w (rs_data r))], isError = (400 \<le> rs_status r)\<rparr>) \<and>
   (normalizeBase input = Inr b \<and>
    fst (getAmadeusToken w [] (apiKey b) (apiSecret b) (serviceName b) (Some (timeoutMs b))) = Inr token \<and>
    net w (Suc 0) (upstream_request w (flight_offers_args b) token) = Completed r \<longrightarrow>
      fst (tool_call w flight_offers_handler input) =
        \<lparr>content = [TextContent (text_of w (rs_data r))], isError = (400 \<le> rs_status r)\<rparr>)"
proof -
  let ?t = "\<lambda>x. fst (getAmadeusToken w [] (apiKey x) (apiSecret x) (serviceName x) (Some (timeoutMs x)))"
  have c1: "\<exists>t c. fst (tool_call w amadeus_request input) = \<lparr>content = [TextContent t], isError = c\<rparr>"
    using handler_results_are_text [of w input]
    by (cases "amadeus_request w input"; cases "fst (amadeus_request w input)")
      (auto simp add: tool_call_def)
  have c2: "\<exists>t c. fst (tool_call w flight_offers_handler input) =
      \<lparr>content = [TextContent t], isError = c\<rparr>"
    using handler_results_are_text [of w input]
    by (cases "flight_offers_handler w input"; cases "fst (flight_offers_handler w input)")
      (auto simp add: tool_call_def)
  have c3: "RequestSchema_parse input = Inr a \<and> ?t a = Inl e \<longrightarrow>
      (\<exists>d. fst (tool_call w amadeus_request input) =
         \<lparr>content = [TextContent (''Amadeus auth error: '' @ d)], isError = True\<rparr>)"
  proof (intro impI, elim conjE)
    assume p: "RequestSchema_parse input = Inr a" and t: "?t a = Inl e"
    from getAmadeusToken_error_shape [OF t] obtain d
      where "e = new_Error (''Amadeus auth error: '' @ d)" by blast
    then show "\<exists>d. fst (tool_call w amadeus_request input) =
         \<lparr>content = [TextContent (''Amadeus auth error: '' @ d)], isError = True\<rparr>"
      by (simp add: tool_call_def amadeus_request_token_failure [OF p t] new_Error_def)
  qed
  have c4: "normalizeBase input = Inr b \<and> ?t b = Inl e \<longrightarrow>
      (\<exists>d. fst (tool_call w flight_offers_handler input) =
         \<lparr>content = [TextContent (''Amadeus auth error: '' @ d)], isError = True\<rparr>)"
  proof (intro impI, elim conjE)
    assume nb: "normalizeBase input = Inr b" and t: "?t b = Inl e"
    from getAmadeusToken_error_shape [OF t] obtain d
      where "e = new_Error (''Amadeus auth error: '' @ d)" by blast
    then show "\<exists>d. fst (tool_call w flight_offers_handler input) =
         \<lparr>content = [TextContent (''Amadeus auth error: '' @ d)], isError = True\<rparr>"
      by (simp add: tool_call_def flight_offers_handler_token_failure [OF nb t] new_Error_def)
  qed
  have c5: "RequestSchema_parse input = Inr a \<and> ?t a = Inr token \<and>
    net w (Suc 0) (upstream_request w a token) = Failed f \<longrightarrow>
      (\<exists>t. fst (tool_call w amadeus_request input) =
         \<lparr>content = [TextContent (''Forwarding error ('' @ t)], isError = True\<rparr>)"
  proof (intro impI, elim conjE)
    assume p: "RequestSchema_parse input = Inr a" and t: "?t a = Inr token"
      and n: "net w (Suc 0) (upstream_request w a token) = Failed f"
    show "\<exists>t. fst (tool_call w amadeus_request input) =
         \<lparr>content = [TextContent (''Forwarding error ('' @ t)], isError = True\<rparr>"
      by (simp add: tool_call_def amadeus_request_token_ok [OF p t] n forwarding_error_def Let_def)
  qed
  have c6: "normalizeBase input = Inr b \<and> ?t b = Inr token \<and>
    net w (Suc 0) (upstream_request w (flight_offers_args b) token) = Failed f \<longrightarrow>
      fst (tool_call w flight_offers_handler input) =
        \<lparr>content = [TextContent (exn_message w (Thrown f))], isError = True\<rparr>"
  proof (intro impI, elim conjE)
    assume nb: "normalizeBase input = Inr b" and t: "?t b = Inr token"
      and n: "net w (Suc 0) (upstream_request w (flight_offers_args b) token) = Failed f"
    show "fst (tool_call w flight_offers_handler input) =
        \<lparr>content = [TextContent (exn_message w (Thrown f))], isError = True\<rparr>"
      by (simp add: tool_call_fst flight_offers_handler_token_ok [OF nb t] n)
  qed
  have c7: "RequestSchema_parse input = Inr a \<and> ?t a = Inr token \<and>
    net w (Suc 0) (upstream_request w a token) = Completed r \<longrightarrow>
      fst (tool_call w amadeus_request input) =
        \<lparr>content = [TextContent (text_of w (rs_data r))], isError = (400 \<le> rs_status r)\<rparr>"
  proof (intro impI, elim conjE)
    assume p: "RequestSchema_parse input = Inr a" and t: "?t a = Inr token"
      and n: "net w (Suc 0) (upstream_request w a token) = Completed r"
    show "fst (tool_call w amadeus_request input) =
        \<lparr>content = [TextContent (text_of w (rs_data r))], isError = (400 \<le> rs_status r)\<rparr>"
      by (simp add: tool_call_def amadeus_request_token_ok [OF p t] n)
  qed
  have c8: "normalizeBase input = Inr b \<and> ?t b = Inr token \<and>
    net w (Suc 0) (upstream_request w (flight_offers_args b) token) = Completed r \<longrightarrow>
      fst (tool_call w flight_offers_handler input) =
        \<lparr>content = [TextContent (text_of w (rs_data r))], isError = (400 \<le> rs_status r)\<rparr>"
  proof (intro impI, elim conjE)
    assume nb: "normalizeBase input = Inr b" and t: "?t b = Inr token"
      and n: "net w (Suc 0) (upstream_request w (flight_offers_args b) token) = Completed r"
    show "fst (tool_call w flight_offers_handler input) =
        \<lparr>content = [TextContent (text_of w (rs_data r))], isError = (400 \<le> rs_status r)\<rparr>"
      by (simp add: tool_call_fst flight_offers_handler_token_ok [OF nb t] n)
  qed
  show ?thesis by (intro conjI; fact)
qed

theorem tool_call_returns_result_witness:
  \<open>(\<exists>d. fst (tool_call (sample_world token_denied main_ok) amadeus_request sample_input) =
      \<lparr>content = [TextContent (''Amadeus auth error: '' @ d)], isError = True\<rparr>) \<and>
   (\<exists>d. fst (tool_call (sample_world token_denied main_ok) flight_offers_handler sample_input) =
      \<lparr>content = [TextContent (''Amadeus auth error: '' @ d)], isError = True\<rparr>) \<and>
   fst (tool_call (sample_world token_denied main_ok) amadeus_request sample_input) =
     \<lparr>content = [TextContent ''Amadeus auth error: {"error":"invalid_client"}''], isError = True\<rparr> \<and>
   fst (tool_call (sample_world token_denied main_ok) flight_offers_handler sample_input) =
     \<lparr>content = [TextContent ''Amadeus auth error: {"error":"invalid_client"}''], isError = True\<rparr> \<and>
   (\<exists>t. fst (tool_call (sample_world token_ok host_unreachable) amadeus_request sample_input) =
      \<lparr>content = [TextContent (''Forwarding error ('' @ t)], isError = True\<rparr>) \<and>
   fst (tool_call (sample_world token_ok host_unreachable) flight_offers_handler sample_input) =
     \<lparr>content = [TextContent ''connect ECONNREFUSED''], isError = True\<rparr> \<and>
   fst (tool_call (sample_world token_ok main_not_found) flight_offers_handler sample_input) =
     \<lparr>content = [TextContent ''{"error":"not found"}''], isError = True\<rparr>\<close>
proof -
  let ?b = "base_args.truncate sample_args"
  let ?r = "\<lparr>rs_status = 404, rs_data = JObj [(''error'', JStr ''not found'')]\<rparr>"
  let ?f = "JsError (Some ''connect ECONNREFUSED'') None"
  let ?e = \<open>new_Error ''Amadeus auth error: {"error":"invalid_client"}''\<close>
  have a: "apiKey sample_args = ''k''" "apiSecret sample_args = ''s''"
    "serviceName sample_args = ''test''" "timeoutMs sample_args = 15000"
    "apiKey ?b = ''k''" "apiSecret ?b = ''s''" "serviceName ?b = ''test''" "timeoutMs ?b = 15000"
    by (simp_all add: sample_args_def base_args.truncate_def)
  have n1: "net (sample_world token_ok host_unreachable) (Suc 0) rq = Failed ?f" for rq
    by (simp add: sample_world_def host_unreachable_def)
  have n2: "net (sample_world token_ok main_not_found) (Suc 0) rq = Completed ?r" for rq
    by (simp add: sample_world_def main_not_found_def)
  note denied = tool_call_returns_result [where w = "sample_world token_denied main_ok"
      and input = sample_input and a = sample_args and b = ?b and e = ?e and token = JNull
      and f = ?f and r = ?r]
  note down = tool_call_returns_result [where w = "sample_world token_ok host_unreachable"
      and input = sample_input and a = sample_args and b = ?b and e = ?e and token = "JStr ''abc''"
      and f = ?f and r = ?r]
  note missing = tool_call_returns_result [where w = "sample_world token_ok main_not_found"
      and input = sample_input and a = sample_args and b = ?b and e = ?e and token = "JStr ''abc''"
      and f = ?f and r = ?r]
  from denied [THEN conjunct2, THEN conjunct2, THEN conjunct1]
    parse_sample token_sample_denied [of main_ok]
  have e1: "\<exists>d. fst (tool_call (sample_world token_denied main_ok) amadeus_request sample_input) =
         \<lparr>content = [TextContent (''Amadeus auth error: '' @ d)], isError = True\<rparr>"
    unfolding a by blast
  have v1: \<open>fst (tool_call (sample_world token_denied main_ok) amadeus_request sample_input) =
     \<lparr>content = [TextContent ''Amadeus auth error: {"error":"invalid_client"}''], isError = True\<rparr>\<close>
    using token_sample_denied [of main_ok]
    by (simp add: tool_call_def amadeus_request_token_failure [OF parse_sample] a new_Error_def)
  from denied [THEN conjunct2, THEN conjunct2, THEN conjunct2, THEN conjunct1]
    normalize_sample token_sample_denied [of main_ok]
  have e2: "\<exists>d. fst (tool_call (sample_world token_denied main_ok) flight_offers_handler sample_input) =
         \<lparr>content = [TextContent (''Amadeus auth error: '' @ d)], isError = True\<rparr>"
    unfolding a by blast
  have v2: \<open>fst (tool_call (sample_world token_denied main_ok) flight_offers_handler sample_input) =
     \<lparr>content = [TextContent ''Amadeus auth error: {"error":"invalid_client"}''], isError = True\<rparr>\<close>
    using token_sample_denied [of main_ok]
    by (simp add: tool_call_def flight_offers_handler_token_failure [OF normalize_sample] a new_Error_def)
  from down [THEN conjunct2, THEN conjunct2, THEN conjunct2, THEN conjunct2, THEN conjunct1]
    parse_sample token_sample_ok [of host_unreachable] n1
  have v3: "\<exists>t. fst (tool_call (sample_world token_ok host_unreachable) amadeus_request sample_input) =
      \<lparr>content = [TextContent (''Forwarding error ('' @ t)], isError = True\<rparr>"
    unfolding a by blast
  from down [THEN conjunct2, THEN conjunct2, THEN conjunct2, THEN conjunct2, THEN conjunct2,
      THEN conjunct1] normalize_sample token_sample_ok [of host_unreachable] n1
  have v4: "fst (tool_call (sample_world token_ok host_unreachable) flight_offers_handler sample_input) =
     \<lparr>content = [TextContent ''connect ECONNREFUSED''], isError = True\<rparr>"
    unfolding a by simp
  from missing [THEN conjunct2, THEN conjunct2, THEN conjunct2, THEN conjunct2, THEN conjunct2,
      THEN conjunct2, THEN conjunct2] normalize_sample token_sample_ok [of main_not_found] n2
  have \<open>fst (tool_call (sample_world token_ok main_not_found) flight_offers_handler sample_input) =
     \<lparr>content = [TextContent (text_of (sample_world token_ok main_not_found)
        (JObj [(''error'', JStr ''not found'')]))], isError = True\<rparr>\<close>
    unfolding a by simp
  then have v5: \<open>fst (tool_call (sample_world token_ok main_not_found) flight_offers_handler sample_input) =
     \<lparr>content = [TextContent ''{"error":"not found"}''], isError = True\<rparr>\<close>
    by (simp add: sample_world_def sample_stringify_def)
  from e1 e2 v1 v2 v3 v4 v5 show ?thesis by (intro conjI)
qed

text \<open>
  Claim C4. In the request that goes upstream the value of the \<^verbatim>\<open>Authorization\<close> header
  is "Bearer " followed by the token and the value of \<^verbatim>\<open>Content-Type\<close> is the content
  type of the call, whatever headers the caller supplied: the two entries set by the
  server replace a caller's entry of the same name. The token is the one that
  \<^verbatim>\<open>getAmadeusToken\<close> returned in this call, in \<^verbatim>\<open>forwardAmadeus\<close> and in the handler of
  \<^verbatim>\<open>amadeus.request\<close>. An input whose headers hold a key that is "authorization" up to
  case is refused by both entry points before any request is issued. After either
  validation, \<^verbatim>\<open>Authorization\<close> is the only key of the outgoing headers that is
  "authorization" up to case.
\<close>

theorem authorization_header_is_server_set:
  "map_of (rq_headers (upstream_request w a token)) ''Authorization'' =
     Some (JStr (''Bearer '' @ template_str w token)) \<and>
   map_of (rq_headers (upstream_request w a token)) ''Content-Type'' = Some (JStr (contentType a)) \<and>
   (fst (getAmadeusToken w lg (apiKey a) (apiSecret a) (serviceName a) (Some (timeoutMs a))) = Inr token \<longrightarrow>
      snd (forwardAmadeus w lg a) =
        lg @ [token_request w (apiKey a) (apiSecret a) (serviceName a) (Some (timeoutMs a)),
              upstream_request w a token]) \<and>
   (RequestSchema_parse input = Inr a \<and>
    fst (getAmadeusToken w [] (apiKey a) (apiSecret a) (serviceName a) (Some (timeoutMs a))) = Inr token \<longrightarrow>
      snd (amadeus_request w input) =
        [token_request w (apiKey a) (apiSecret a) (serviceName a) (Some (timeoutMs a)),
         upstream_request w a token]) \<and>
   (map_of input ''headers'' = Some (JObj hs) \<and>
    (\<exists>k \<in> fst ` set hs. toLowerCase k = ''authorization'') \<longrightarrow>
      (\<exists>e. amadeus_request w input = (Inl e, [])) \<and>
      (\<exists>e. flight_offers_handler w input = (Inl e, []))) \<and>
   (RequestSchema_parse input = Inr a \<longrightarrow>
      (\<forall>k \<in> fst ` set (rq_headers (upstream_request w a token)).
         toLowerCase k = ''authorization'' \<longrightarrow> k = ''Authorization'')) \<and>
   (normalizeBase input = Inr b \<longrightarrow>
      (\<forall>k \<in> fst ` set (rq_headers (upstream_request w (flight_offers_args b) token)).
         toLowerCase k = ''authorization'' \<longrightarrow> k = ''Authorization''))"
proof -
  have h: "rq_headers (upstream_request w x token) =
           merge_headers w (headers x) token (contentType x)" for x :: forward_args
    by (simp add: upstream_request_def)
  have f: "snd (forwardAmadeus w lg a) =
        lg @ [token_request w (apiKey a) (apiSecret a) (serviceName a) (Some (timeoutMs a)),
              upstream_request w a token]"
    if "fst (getAmadeusToken w lg (apiKey a) (apiSecret a) (serviceName a) (Some (timeoutMs a))) = Inr token"
    using that by (simp add: forwardAmadeus_token_ok)
  have r: "snd (amadeus_request w input) =
        [token_request w (apiKey a) (apiSecret a) (serviceName a) (Some (timeoutMs a)),
         upstream_request w a token]"
    if "RequestSchema_parse input = Inr a"
      "fst (getAmadeusToken w [] (apiKey a) (apiSecret a) (serviceName a) (Some (timeoutMs a))) = Inr token"
    using that by (simp add: amadeus_request_token_ok)
  have rej: "(\<exists>e. amadeus_request w input = (Inl e, [])) \<and>
      (\<exists>e. flight_offers_handler w input = (Inl e, []))"
    if m: "map_of input ''headers'' = Some (JObj hs)"
      and k: "\<exists>k \<in> fst ` set hs. toLowerCase k = ''authorization''"
  proof -
    from parse_rejects_authorization [OF m k] obtain issues
      where "RequestSchema_parse input = Inl (ZodError issues)" by blast
    then have 1: "amadeus_request w input = (Inl (ZodError issues), [])"
      by (simp add: amadeus_request_def)
    from normalizeBase_rejects_authorization [OF m k] obtain e
      where "normalizeBase input = Inl e" by blast
    then have 2: "flight_offers_handler w input = (Inl (Thrown e), [])"
      by (simp add: flight_offers_handler_def)
    from 1 2 show ?thesis by blast
  qed
  have clean: "\<forall>k \<in> fst ` set (rq_headers (upstream_request w a token)).
         toLowerCase k = ''authorization'' \<longrightarrow> k = ''Authorization''"
    if "RequestSchema_parse input = Inr a"
    using parse_headers_clean [OF that] lower_Content_Type
    unfolding h merged_keys by auto
  have clean': "\<forall>k \<in> fst ` set (rq_headers (upstream_request w (flight_offers_args b) token)).
         toLowerCase k = ''authorization'' \<longrightarrow> k = ''Authorization''"
    if "normalizeBase input = Inr b"
    using normalizeBase_headers_clean [OF that] lower_Content_Type
    unfolding h merged_keys flight_offers_args_fields by auto
  have c1: "map_of (rq_headers (upstream_request w a token)) ''Authorization'' =
     Some (JStr (''Bearer '' @ template_str w token))"
    unfolding h by (rule merged_Authorization)
  have c2: "map_of (rq_headers (upstream_request w a token)) ''Content-Type'' = Some (JStr (contentType a))"
    unfolding h by (rule merged_Content_Type)
  have c3: "fst (getAmadeusToken w lg (apiKey a) (apiSecret a) (serviceName a) (Some (timeoutMs a))) = Inr token \<longrightarrow>
      snd (forwardAmadeus w lg a) =
        lg @ [token_request w (apiKey a) (apiSecret a) (serviceName a) (Some (timeoutMs a)),
              upstream_request w a token]"
    using f by (rule impI)
  have c4: "RequestSchema_parse input = Inr a \<and>
    fst (getAmadeusToken w [] (apiKey a) (apiSecret a) (serviceName a) (Some (timeoutMs a))) = Inr token \<longrightarrow>
      snd (amadeus_request w input) =
        [token_request w (apiKey a) (apiSecret a) (serviceName a) (Some (timeoutMs a)),
         upstream_request w a token]"
    using r by (intro impI) (elim conjE)
  have c5: "map_of input ''headers'' = Some (JObj hs) \<and>
    (\<exists>k \<in> fst ` set hs. toLowerCase k = ''authorization'') \<longrightarrow>
      (\<exists>e. amadeus_request w input = (Inl e, [])) \<and>
      (\<exists>e. flight_offers_handler w input = (Inl e, []))"
    using rej by (intro impI) (elim conjE)
  have c6: "RequestSchema_parse input = Inr a \<longrightarrow>
      (\<forall>k \<in> fst ` set (rq_headers (upstream_request w a token)).
         toLowerCase k = ''authorization'' \<longrightarrow> k = ''Authorization'')"
    using clean by (rule impI)
  have c7: "normalizeBase input = Inr b \<longrightarrow>
      (\<forall>k \<in> fst ` set (rq_headers (upstream_request w (flight_offers_args b) token)).
         toLowerCase k = ''authorization'' \<longrightarrow> k = ''Authorization'')"
    using clean' by (rule impI)
  show ?thesis by (intro conjI; fact)
qed

theorem authorization_header_is_server_set_witness:
  "amadeus_request (sample_world token_ok main_ok) smuggling_input = (Inl (ZodError [''headers'']), []) \<and>
   (\<exists>e. flight_offers_handler (sample_world token_ok main_ok) smuggling_input = (Inl e, [])) \<and>
   snd (amadeus_request (sample_world token_ok main_ok) sample_input) =
     [token_request (sample_world token_ok main_ok) ''k'' ''s'' ''test'' (Some 15000),
      upstream_request (sample_world token_ok main_ok) sample_args (JStr ''abc'')] \<and>
   rq_headers (upstream_request (sample_world token_ok main_ok) sample_args (JStr ''abc'')) =
     [(''X-Trace'', JStr ''1''), (''Authorization'', JStr ''Bearer abc''),
      (''Content-Type'', JStr ''application/json'')]"
proof -
  have a: "apiKey sample_args = ''k''" "apiSecret sample_args = ''s''"
    "serviceName sample_args = ''test''" "timeoutMs sample_args = 15000"
    by (simp_all add: sample_args_def)
  have m: "map_of smuggling_input ''headers'' = Some (JObj [(''AUTHORIZATION'', JStr ''Bearer stolen'')])"
    by (simp add: smuggling_input_def)
  have k: "\<exists>k \<in> fst ` set [(''AUTHORIZATION'', JStr ''Bearer stolen'')]. toLowerCase k = ''authorization''"
    by code_simp
  have z: "RequestSchema_parse smuggling_input = Inl (ZodError [''headers''])"
    by code_simp
  have hd: "rq_headers (upstream_request (sample_world token_ok main_ok) sample_args (JStr ''abc'')) =
     [(''X-Trace'', JStr ''1''), (''Authorization'', JStr ''Bearer abc''),
      (''Content-Type'', JStr ''application/json'')]"
    by (simp add: upstream_request_def merge_headers_def sample_args_def)
  note rejected = authorization_header_is_server_set [where w = "sample_world token_ok main_ok"
      and a = sample_args and token = "JStr ''abc''" and lg = "[]" and input = smuggling_input
      and hs = "[(''AUTHORIZATION'', JStr ''Bearer stolen'')]" and b = "base_args.truncate sample_args",
      THEN conjunct2, THEN conjunct2, THEN conjunct2, THEN conjunct2, THEN conjunct1]
  from rejected m k
  obtain e e' where e: "amadeus_request (sample_world token_ok main_ok) smuggling_input = (Inl e, [])"
    and e': "flight_offers_handler (sample_world token_ok main_ok) smuggling_input = (Inl e', [])"
    by blast
  from e z have "e = ZodError [''headers'']"
    by (simp add: amadeus_request_def)
  with e have 1: "amadeus_request (sample_world token_ok main_ok) smuggling_input =
      (Inl (ZodError [''headers'']), [])"
    by simp
  from e' have 2: "\<exists>e. flight_offers_handler (sample_world token_ok main_ok) smuggling_input = (Inl e, [])"
    by blast
  note issued = authorization_header_is_server_set [where w = "sample_world token_ok main_ok"
      and a = sample_args and token = "JStr ''abc''" and lg = "[]" and input = sample_input
      and hs = "[]" and b = "base_args.truncate sample_args",
      THEN conjunct2, THEN conjunct2, THEN conjunct2, THEN conjunct1]
  have t: "fst (getAmadeusToken (sample_world token_ok main_ok) [] (apiKey sample_args)
      (apiSecret sample_args) (serviceName sample_args) (Some (timeoutMs sample_args))) = Inr (JStr ''abc'')"
    unfolding a by (rule token_sample_ok)
  from issued parse_sample t
  have 3: "snd (amadeus_request (sample_world token_ok main_ok) sample_input) =
     [token_request (sample_world token_ok main_ok) ''k'' ''s'' ''test'' (Some 15000),
      upstream_request (sample_world token_ok main_ok) sample_args (JStr ''abc'')]"
    unfolding a by blast
  from 1 2 3 hd show ?thesis by (intro conjI)
qed

text \<open>
  Claim C10. When the \<^verbatim>\<open>timeoutMs\<close> property is not an integer (absent, fractional, not
  a number), \<^verbatim>\<open>normalizeBase\<close> never throws the error "timeoutMs must be a positive
  integer up to 60000" and every result it returns has the timeout 15000. That error
  is thrown only when the property is an integer outside the range from 1 to 60000, and
  an input with such a property is always refused. When the checks that precede the
  one of the timeout pass (the three credentials are non-empty strings and the headers
  hold no authorization key), the error is thrown exactly when the property is an
  integer outside the range, and an input whose property is not an integer is accepted
  with the timeout 15000.
\<close>

theorem normalizeBase_timeout:
  "(\<not> isInteger (map_of input ''timeoutMs'') \<longrightarrow>
      normalizeBase input \<noteq> Inl (new_Error ''timeoutMs must be a positive integer up to 60000'') \<and>
      (\<forall>a. normalizeBase input = Inr a \<longrightarrow> timeoutMs a = 15000)) \<and>
   (normalizeBase input = Inl (new_Error ''timeoutMs must be a positive integer up to 60000'') \<longrightarrow>
      isInteger (map_of input ''timeoutMs'') \<and>
      \<not> (0 < int_value (map_of input ''timeoutMs'') \<and> int_value (map_of input ''timeoutMs'') \<le> 60000)) \<and>
   (isInteger (map_of input ''timeoutMs'') \<and>
    \<not> (0 < int_value (map_of input ''timeoutMs'') \<and> int_value (map_of input ''timeoutMs'') \<le> 60000) \<longrightarrow>
      (\<exists>e. normalizeBase input = Inl e)) \<and>
   (ensureString (map_of input ''serviceName'') ''serviceName'' = Inr sn \<and>
    ensureString (map_of input ''apiKey'') ''apiKey'' = Inr key \<and>
    ensureString (map_of input ''apiSecret'') ''apiSecret'' = Inr secret \<and>
    assertNoAuthHeader (if is_object (map_of input ''headers'')
           then the (map_of input ''headers'') else JObj []) = Inr () \<longrightarrow>
      (normalizeBase input = Inl (new_Error ''timeoutMs must be a positive integer up to 60000'') \<longleftrightarrow>
         isInteger (map_of input ''timeoutMs'') \<and>
         \<not> (0 < int_value (map_of input ''timeoutMs'') \<and> int_value (map_of input ''timeoutMs'') \<le> 60000)) \<and>
      (\<not> isInteger (map_of input ''timeoutMs'') \<longrightarrow>
         (\<exists>a. normalizeBase input = Inr a \<and> timeoutMs a = 15000)))"
proof (cases "\<exists>sn key secret.
      ensureString (map_of input ''serviceName'') ''serviceName'' = Inr sn \<and>
      ensureString (map_of input ''apiKey'') ''apiKey'' = Inr key \<and>
      ensureString (map_of input ''apiSecret'') ''apiSecret'' = Inr secret \<and>
      assertNoAuthHeader (if is_object (map_of input ''headers'')
           then the (map_of input ''headers'') else JObj []) = Inr ()")
  case True
  then obtain sn' key' secret' where c:
      "ensureString (map_of input ''serviceName'') ''serviceName'' = Inr sn'"
      "ensureString (map_of input ''apiKey'') ''apiKey'' = Inr key'"
      "ensureString (map_of input ''apiSecret'') ''apiSecret'' = Inr secret'"
      "assertNoAuthHeader (if is_object (map_of input ''headers'')
           then the (map_of input ''headers'') else JObj []) = Inr ()"
    by blast
  show ?thesis
    unfolding normalizeBase_checked [OF c] by (auto simp add: c)
next
  case False
  from normalizeBase_unchecked [OF False] obtain e where
    e: "normalizeBase input = Inl e" "e \<noteq> new_Error ''timeoutMs must be a positive integer up to 60000''"
    by blast
  let ?X = "new_Error ''timeoutMs must be a positive integer up to 60000''"
  have c1: "\<not> isInteger (map_of input ''timeoutMs'') \<longrightarrow>
      normalizeBase input \<noteq> Inl ?X \<and> (\<forall>a. normalizeBase input = Inr a \<longrightarrow> timeoutMs a = 15000)"
    using e by simp
  have c2: "normalizeBase input = Inl ?X \<longrightarrow>
      isInteger (map_of input ''timeoutMs'') \<and>
      \<not> (0 < int_value (map_of input ''timeoutMs'') \<and> int_value (map_of input ''timeoutMs'') \<le> 60000)"
    using e by simp
  have c3: "isInteger (map_of input ''timeoutMs'') \<and>
    \<not> (0 < int_value (map_of input ''timeoutMs'') \<and> int_value (map_of input ''timeoutMs'') \<le> 60000) \<longrightarrow>
      (\<exists>e. normalizeBase input = Inl e)"
    using e by simp
  have c4: "\<not> (ensureString (map_of input ''serviceName'') ''serviceName'' = Inr sn \<and>
    ensureString (map_of input ''apiKey'') ''apiKey'' = Inr key \<and>
    ensureString (map_of input ''apiSecret'') ''apiSecret'' = Inr secret \<and>
    assertNoAuthHeader (if is_object (map_of input ''headers'')
           then the (map_of input ''headers'') else JObj []) = Inr ())"
    using False by blast
  from c1 c2 c3 c4 show ?thesis by blast
qed

theorem normalizeBase_timeout_witness:
  "(\<exists>a. normalizeBase (with_timeout (JNum (3 / 2))) = Inr a \<and> timeoutMs a = 15000) \<and>
   (\<exists>a. normalizeBase (with_timeout (JStr ''soon'')) = Inr a \<and> timeoutMs a = 15000) \<and>
   (\<exists>a. normalizeBase sample_input = Inr a \<and> timeoutMs a = 15000) \<and>
   normalizeBase (with_timeout (JNum 0)) =
     Inl (new_Error ''timeoutMs must be a positive integer up to 60000'') \<and>
   normalizeBase (with_timeout (JNum 60001)) =
     Inl (new_Error ''timeoutMs must be a positive integer up to 60000'') \<and>
   normalizeBase (with_timeout (JNum 60000)) \<noteq>
     Inl (new_Error ''timeoutMs must be a positive integer up to 60000'')"
proof -
  have c: "ensureString (map_of (with_timeout v) ''serviceName'') ''serviceName'' = Inr ''test''"
    "ensureString (map_of (with_timeout v) ''apiKey'') ''apiKey'' = Inr ''k''"
    "ensureString (map_of (with_timeout v) ''apiSecret'') ''apiSecret'' = Inr ''s''"
    "assertNoAuthHeader (if is_object (map_of (with_timeout v) ''headers'')
           then the (map_of (with_timeout v) ''headers'') else JObj []) = Inr ()" for v
    by (simp_all add: with_timeout_def sample_input_def ensureString_def trim_def is_whitespace_def
        is_object_def assertNoAuthHeader_def lower_keys_def toLowerCase_def lower_char_def
        char_of_eq_iff char_eq_char_of_iff)
  have c0: "ensureString (map_of sample_input ''serviceName'') ''serviceName'' = Inr ''test''"
    "ensureString (map_of sample_input ''apiKey'') ''apiKey'' = Inr ''k''"
    "ensureString (map_of sample_input ''apiSecret'') ''apiSecret'' = Inr ''s''"
    "assertNoAuthHeader (if is_object (map_of sample_input ''headers'')
           then the (map_of sample_input ''headers'') else JObj []) = Inr ()"
    by (simp_all add: sample_input_def ensureString_def trim_def is_whitespace_def
        is_object_def assertNoAuthHeader_def lower_keys_def toLowerCase_def lower_char_def
        char_of_eq_iff char_eq_char_of_iff)
  have t: "map_of (with_timeout v) ''timeoutMs'' = Some v" for v
    by (simp add: with_timeout_def)
  have t0: "map_of sample_input ''timeoutMs'' = None"
    by (simp add: sample_input_def)
  have i: "\<not> isInteger (Some (JNum (3 / 2)))" "\<not> isInteger (Some (JStr ''soon''))" "\<not> isInteger None"
    "isInteger (Some (JNum 0))" "isInteger (Some (JNum 60001))" "isInteger (Some (JNum 60000))"
    "int_value (Some (JNum 0)) = 0" "int_value (Some (JNum 60001)) = 60001"
    "int_value (Some (JNum 60000)) = 60000"
    by (simp_all add: isInteger_simps int_value_def)
  from normalizeBase_timeout [of "with_timeout (JNum (3 / 2))" "''test''" "''k''" "''s''"]
    normalizeBase_timeout [of "with_timeout (JStr ''soon'')" "''test''" "''k''" "''s''"]
    normalizeBase_timeout [of sample_input "''test''" "''k''" "''s''"]
    normalizeBase_timeout [of "with_timeout (JNum 0)" "''test''" "''k''" "''s''"]
    normalizeBase_timeout [of "with_timeout (JNum 60001)" "''test''" "''k''" "''s''"]
    normalizeBase_timeout [of "with_timeout (JNum 60000)" "''test''" "''k''" "''s''"]
  show ?thesis unfolding c c0 t t0 using i by simp
qed


end
